theory Spec2Isabelle
  imports Main "HOL-Library.Stream"
begin

section \<open>WebRequest: the per-request state machine of the Android WebKit network layer\<close>

text \<open>
  Source: \<^verbatim>\<open>WebKit/android/WebCoreSupport/WebRequest.cpp\<close>.  Every member function of
  \<^verbatim>\<open>WebRequest\<close> becomes a function from the object's state to an outcome.  The macro
  \<^verbatim>\<open>ASSERT\<close> of the file logs and calls \<^verbatim>\<open>CRASH()\<close>, in every build; a failed assertion
  and a call through a null reference therefore abort the process, and the outcome
  keeps the state the process was in at that moment.  The two loops of the file have no
  bound of their own (they run as long as the transport or the Java stream delivers
  data), so they are partial functions: \<open>None\<close> is an execution that never returns.
\<close>

subsection \<open>Data\<close>

text \<open>
  Modelled from the spec: the declaration of \<^verbatim>\<open>enum LoadState\<close> is in \<^verbatim>\<open>WebRequest.h\<close>,
  which is not among the sources.  The spec gives the states and their order
  (\<^verbatim>\<open>Created, Started, Response, GotData, Finished, Deleted\<close>, with \<^verbatim>\<open>Cancelled\<close> entered
  from \<^verbatim>\<open>Started\<close>, \<^verbatim>\<open>Response\<close> or \<^verbatim>\<open>GotData\<close> and followed by \<^verbatim>\<open>Finished\<close>; "past
  Cancelled" means a finish has landed).  The comparisons of the source
  (\<^verbatim>\<open>m_loadState > Cancelled\<close>, \<^verbatim>\<open>m_loadState < Finished\<close>, \<^verbatim>\<open>m_loadState < Response\<close>,
  \<^verbatim>\<open>m_loadState >= Started\<close>) are on the enumerators' values, given by \<open>LoadState_value\<close>.
\<close>

datatype LoadState = Created | Started | Response | GotData | Cancelled | Finished | Deleted

fun LoadState_value :: "LoadState \<Rightarrow> nat" where
  "LoadState_value Created = 0"
| "LoadState_value Started = 1"
| "LoadState_value Response = 2"
| "LoadState_value GotData = 3"
| "LoadState_value Cancelled = 4"
| "LoadState_value Finished = 5"
| "LoadState_value Deleted = 6"

text \<open>\<^verbatim>\<open>const int kInitialReadBufSize = 32768;\<close>\<close>

definition kInitialReadBufSize :: int where
  "kInitialReadBufSize = 32768"

text \<open>
  The transport (\<^verbatim>\<open>URLRequest\<close>, \<^verbatim>\<open>GURL\<close>, \<^verbatim>\<open>URLRequestStatus\<close>) is an external library.
  Of a status the source asks only \<^verbatim>\<open>is_success()\<close> and \<^verbatim>\<open>is_io_pending()\<close>.  What the
  transport answers to the successive calls of \<^verbatim>\<open>Read\<close> is an input of the program: the
  stream \<open>req_reads\<close> holds, for each future call, the returned flag, the value written
  to \<^verbatim>\<open>*bytesRead\<close> and the status the request has afterwards.
\<close>

datatype GURL = GURL string

record URLRequestStatus =
  is_success :: bool
  is_io_pending :: bool

record URLRequest =
  req_url :: GURL
  req_headers :: string
  req_referrer :: string
  req_method :: string
  req_upload :: "string list"
  req_context :: "bool option"
  req_status :: URLRequestStatus
  req_reads :: "(bool \<times> int \<times> URLRequestStatus) stream"

record WebResourceRequest =
  wr_url :: string
  wr_userAgent :: string
  wr_requestHeaders :: string
  wr_referrer :: string
  wr_method :: string

text \<open>\<^verbatim>\<open>new net::IOBuffer(size)\<close>: a buffer is known by the order of its allocation.\<close>

record IOBuffer =
  buf_id :: nat
  buf_size :: int

text \<open>
  \<^verbatim>\<open>WebResponse\<close> is built in two ways in the source: from a transport request
  (\<^verbatim>\<open>setUrl\<close> then replaces the URL), and from the five fields url, MIME type, expected
  size, encoding and HTTP status.  The code of the class is not in this file, so a
  descriptor built from a request is kept as the request it was built from.
\<close>

datatype WebResponse =
    WebResponse_of_request "URLRequest option"
  | WebResponse_of_request_url "URLRequest option" string
  | WebResponse_fields string string int string int

text \<open>The tasks posted to the consumer with \<^verbatim>\<open>maybeCallOnMainThread\<close>, one per method.\<close>

datatype notification =
    DidReceiveResponse WebResponse
  | WillSendRequest WebResponse
  | AuthRequired nat
  | DidReceiveData "IOBuffer option" int
  | DidReceiveAndroidFileData string
  | DidReceiveDataUrl string
  | DidFail WebResponse
  | DidFinishLoading

text \<open>The calls made on the transport request \<^verbatim>\<open>m_request\<close>.\<close>

datatype transport_call =
    Net_Start
  | Net_Cancel
  | Net_Read IOBuffer int
  | Net_SetAuth string string
  | Net_CancelAuth
  | Net_AppendBytesToUpload string

text \<open>
  What the object does to its environment, in the order in which it does it: a task
  posted to the consumer, a call on the transport, a buffer allocated.
\<close>

datatype effect =
    Posted notification
  | Called transport_call
  | Allocated IOBuffer

text \<open>
  The members of \<^verbatim>\<open>WebRequest\<close>, followed by the log of its effects so far (\<open>effects\<close>,
  only ever extended at its end), the number of buffers allocated so far
  (\<open>next_buffer\<close>) and what the Java stream will answer to the successive calls of
  \<^verbatim>\<open>readFromStream\<close> (\<open>stream_reads\<close>: the returned size and the contents of the byte
  array afterwards).  A null \<^verbatim>\<open>scoped_refptr\<close> or \<^verbatim>\<open>OwnPtr\<close> is \<open>None\<close>.
\<close>

record WebRequest =
  m_urlLoader :: "nat option"
  m_request :: "URLRequest option"
  m_networkBuffer :: "IOBuffer option"
  m_inputStream :: int
  m_androidUrl :: bool
  m_url :: string
  m_userAgent :: string
  m_loadState :: LoadState
  effects :: "effect list"
  next_buffer :: nat
  stream_reads :: "(int \<times> string) stream"

text \<open>
  The functions of other libraries that the source calls and whose results it uses:
  \<^verbatim>\<open>GURL::SchemeIs\<close>, \<^verbatim>\<open>GURL::spec\<close>, \<^verbatim>\<open>net::DataURL::Parse\<close> (MIME type, charset and
  decoded data when it succeeds), \<^verbatim>\<open>net::GetMimeTypeFromFile\<close> (the type when it finds
  one), \<^verbatim>\<open>AssetManager::open\<close> with \<^verbatim>\<open>getBuffer\<close>/\<^verbatim>\<open>getLength\<close> (the asset's bytes when it
  exists) and JNI's \<^verbatim>\<open>NewGlobalRef\<close>.  They are parameters of the model.
\<close>

record externals =
  SchemeIs :: "GURL \<Rightarrow> string \<Rightarrow> bool"
  spec :: "GURL \<Rightarrow> string"
  DataURL_Parse :: "GURL \<Rightarrow> (string \<times> string \<times> string) option"
  GetMimeTypeFromFile :: "string \<Rightarrow> string option"
  asset_open :: "string \<Rightarrow> string option"
  NewGlobalRef :: "int \<Rightarrow> int"

datatype fault = AssertionFailed | NullDereference

type_synonym outcome = "(fault \<times> WebRequest) + WebRequest"

text \<open>The tasks posted to the consumer, in the order of their posting.\<close>

fun posted_of :: "effect list \<Rightarrow> notification list" where
  "posted_of [] = []"
| "posted_of (Posted n # es) = n # posted_of es"
| "posted_of (e # es) = posted_of es"

definition posted :: "WebRequest \<Rightarrow> notification list" where
  "posted s = posted_of (effects s)"

definition state_of :: "outcome \<Rightarrow> WebRequest" where
  "state_of out = (case out of Inl (f, s) \<Rightarrow> s | Inr s \<Rightarrow> s)"

subsection \<open>Construction and destruction\<close>

text \<open>
  \<^verbatim>\<open>WebRequest(WebUrlLoaderClient* loader, const WebResourceRequest&)\<close>.  The last argument
  is the transport's future behaviour; \<open>js\<close> is unused by this kind of request.
\<close>

definition WebRequest_new ::
  "nat option \<Rightarrow> WebResourceRequest \<Rightarrow> URLRequestStatus \<Rightarrow>
   (bool \<times> int \<times> URLRequestStatus) stream \<Rightarrow> (int \<times> string) stream \<Rightarrow> WebRequest" where
  "WebRequest_new loader w st rs js =
     \<lparr> m_urlLoader = loader,
       m_request = Some \<lparr> req_url = GURL (wr_url w), req_headers = wr_requestHeaders w,
                          req_referrer = wr_referrer w, req_method = wr_method w,
                          req_upload = [], req_context = None, req_status = st,
                          req_reads = rs \<rparr>,
       m_networkBuffer = None,
       m_inputStream = 0,
       m_androidUrl = False,
       m_url = wr_url w,
       m_userAgent = wr_userAgent w,
       m_loadState = Created,
       effects = [], next_buffer = 0, stream_reads = js \<rparr>"

text \<open>
  \<^verbatim>\<open>WebRequest(WebUrlLoaderClient* loader, const WebResourceRequest&, int inputStream)\<close>:
  no transport request is created.
\<close>

definition WebRequest_new_stream ::
  "externals \<Rightarrow> nat option \<Rightarrow> WebResourceRequest \<Rightarrow> int \<Rightarrow> (int \<times> string) stream \<Rightarrow> WebRequest" where
  "WebRequest_new_stream ext loader w inputStream js =
     \<lparr> m_urlLoader = loader,
       m_request = None,
       m_networkBuffer = None,
       m_inputStream = NewGlobalRef ext inputStream,
       m_androidUrl = True,
       m_url = wr_url w,
       m_userAgent = wr_userAgent w,
       m_loadState = Created,
       effects = [], next_buffer = 0, stream_reads = js \<rparr>"

text \<open>\<^verbatim>\<open>~WebRequest()\<close>\<close>

definition destroy :: "WebRequest \<Rightarrow> outcome" where
  "destroy s =
     (if m_loadState s \<noteq> Finished then Inl (AssertionFailed, s)
      else Inr (s\<lparr>m_loadState := Deleted\<rparr>))"

subsection \<open>Posting and finishing\<close>

text \<open>
  \<^verbatim>\<open>m_urlLoader->maybeCallOnMainThread(NewRunnableMethod(m_urlLoader.get(), ...))\<close>: the
  call goes through \<^verbatim>\<open>m_urlLoader\<close>.
\<close>

definition maybeCallOnMainThread :: "notification \<Rightarrow> WebRequest \<Rightarrow> outcome" where
  "maybeCallOnMainThread n s =
     (case m_urlLoader s of
        None \<Rightarrow> Inl (NullDereference, s)
      | Some l \<Rightarrow> Inr (s\<lparr>effects := effects s @ [Posted n]\<rparr>))"

text \<open>\<^verbatim>\<open>void WebRequest::finish(bool success)\<close>\<close>

definition finish :: "bool \<Rightarrow> WebRequest \<Rightarrow> outcome" where
  "finish success s =
     (if \<not> LoadState_value (m_loadState s) < LoadState_value Finished
      then Inl (AssertionFailed, s)
      else
        let s1 = s\<lparr>m_loadState := Finished\<rparr> in
        case maybeCallOnMainThread
               (if success then DidFinishLoading
                else DidFail (WebResponse_of_request (m_request s1))) s1 of
          Inl a \<Rightarrow> Inl a
        | Inr s2 \<Rightarrow> Inr (s2\<lparr>m_networkBuffer := None, m_request := None, m_urlLoader := None\<rparr>))"

subsection \<open>Control surface\<close>

text \<open>\<^verbatim>\<open>void WebRequest::AppendBytesToUpload(WTF::Vector<char>* data)\<close>\<close>

definition AppendBytesToUpload :: "string \<Rightarrow> WebRequest \<Rightarrow> outcome" where
  "AppendBytesToUpload dat s =
     (if m_loadState s \<noteq> Created then Inl (AssertionFailed, s)
      else case m_request s of
        None \<Rightarrow> Inl (NullDereference, s)
      | Some r \<Rightarrow>
          Inr (s\<lparr>m_request := Some (r\<lparr>req_upload := req_upload r @ [dat]\<rparr>),
                 effects := effects s @ [Called (Net_AppendBytesToUpload dat)]\<rparr>))"

text \<open>\<^verbatim>\<open>void WebRequest::cancel()\<close>\<close>

definition cancel :: "WebRequest \<Rightarrow> outcome" where
  "cancel s =
     (if \<not> LoadState_value (m_loadState s) \<ge> LoadState_value Started
      then Inl (AssertionFailed, s)
      else if \<not> m_loadState s \<noteq> Cancelled then Inl (AssertionFailed, s)
      else if LoadState_value (m_loadState s) > LoadState_value Cancelled then Inr s
      else if m_request s = None then Inl (AssertionFailed, s)
      else
        finish True (s\<lparr>m_loadState := Cancelled,
                       effects := effects s @ [Called Net_Cancel]\<rparr>))"

text \<open>\<^verbatim>\<open>void WebRequest::setAuth(const string16&, const string16&)\<close> and \<^verbatim>\<open>cancelAuth()\<close>\<close>

definition setAuth :: "string \<Rightarrow> string \<Rightarrow> WebRequest \<Rightarrow> outcome" where
  "setAuth username password s =
     (if m_loadState s \<noteq> Started then Inl (AssertionFailed, s)
      else case m_request s of
        None \<Rightarrow> Inl (NullDereference, s)
      | Some r \<Rightarrow> Inr (s\<lparr>effects := effects s @ [Called (Net_SetAuth username password)]\<rparr>))"

definition cancelAuth :: "WebRequest \<Rightarrow> outcome" where
  "cancelAuth s =
     (if m_loadState s \<noteq> Started then Inl (AssertionFailed, s)
      else case m_request s of
        None \<Rightarrow> Inl (NullDereference, s)
      | Some r \<Rightarrow> Inr (s\<lparr>effects := effects s @ [Called Net_CancelAuth]\<rparr>))"

subsection \<open>The read loop\<close>

text \<open>
  \<^verbatim>\<open>bool WebRequest::read(int* bytesRead)\<close>: the returned flag, the bytes read and the
  new state.
\<close>

definition read :: "WebRequest \<Rightarrow> (fault \<times> WebRequest) + (bool \<times> int \<times> WebRequest)" where
  "read s =
     (if \<not> (m_loadState s = Response \<or> m_loadState s = GotData) then Inl (AssertionFailed, s)
      else if \<not> m_networkBuffer s = None then Inl (AssertionFailed, s)
      else
        let b = \<lparr>buf_id = next_buffer s, buf_size = kInitialReadBufSize\<rparr>;
            s1 = s\<lparr>m_networkBuffer := Some b, next_buffer := Suc (next_buffer s),
                   effects := effects s @ [Allocated b]\<rparr>
        in case m_request s1 of
             None \<Rightarrow> Inl (NullDereference, s1)
           | Some r \<Rightarrow>
               Inr (fst (shd (req_reads r)), fst (snd (shd (req_reads r))),
                    s1\<lparr>m_request := Some (r\<lparr>req_status := snd (snd (shd (req_reads r))),
                                             req_reads := stl (req_reads r)\<rparr>),
                       effects := effects s1 @ [Called (Net_Read b kInitialReadBufSize)]\<rparr>))"

text \<open>The \<^verbatim>\<open>while (true)\<close> of \<^verbatim>\<open>WebRequest::startReading\<close>.\<close>

partial_function (option) startReading_loop :: "WebRequest \<Rightarrow> outcome option" where
  "startReading_loop s =
     (case read s of
        Inl a \<Rightarrow> Some (Inl a)
      | Inr res \<Rightarrow>
          if fst res then
            if fst (snd res) = 0 then Some (finish True (snd (snd res)))
            else
              (case maybeCallOnMainThread
                      (DidReceiveData (m_networkBuffer (snd (snd res))) (fst (snd res)))
                      ((snd (snd res))\<lparr>m_loadState := GotData\<rparr>) of
                 Inl a \<Rightarrow> Some (Inl a)
               | Inr s2 \<Rightarrow> startReading_loop (s2\<lparr>m_networkBuffer := None\<rparr>))
          else if (case m_request (snd (snd res)) of
                     None \<Rightarrow> False
                   | Some r \<Rightarrow> is_io_pending (req_status r))
          then Some (Inr (snd (snd res)))
          else Some (finish False (snd (snd res))))"

text \<open>\<^verbatim>\<open>void WebRequest::startReading()\<close>\<close>

definition startReading :: "WebRequest \<Rightarrow> outcome option" where
  "startReading s =
     (if \<not> (m_loadState s = Response \<or> m_loadState s = GotData)
      then Some (Inl (AssertionFailed, s))
      else startReading_loop s)"

subsection \<open>Transport callbacks\<close>

text \<open>
  \<^verbatim>\<open>void WebRequest::OnReceivedRedirect(URLRequest* newRequest, const GURL& newUrl, bool*)\<close>
\<close>

definition OnReceivedRedirect :: "externals \<Rightarrow> URLRequest option \<Rightarrow> GURL \<Rightarrow> WebRequest \<Rightarrow> outcome" where
  "OnReceivedRedirect ext newRequest newUrl s =
     (if \<not> LoadState_value (m_loadState s) < LoadState_value Response
      then Inl (AssertionFailed, s)
      else case newRequest of
        None \<Rightarrow> Inr s
      | Some r \<Rightarrow>
          if is_success (req_status r)
          then maybeCallOnMainThread
                 (WillSendRequest (WebResponse_of_request_url newRequest (spec ext newUrl))) s
          else Inr s)"

text \<open>\<^verbatim>\<open>void WebRequest::OnAuthRequired(URLRequest* request, net::AuthChallengeInfo* authInfo)\<close>\<close>

definition OnAuthRequired :: "nat \<Rightarrow> WebRequest \<Rightarrow> outcome" where
  "OnAuthRequired authInfo s =
     (if m_loadState s \<noteq> Started then Inl (AssertionFailed, s)
      else maybeCallOnMainThread (AuthRequired authInfo) s)"

text \<open>\<^verbatim>\<open>void WebRequest::OnResponseStarted(URLRequest* request)\<close>\<close>

definition OnResponseStarted :: "URLRequest option \<Rightarrow> WebRequest \<Rightarrow> outcome option" where
  "OnResponseStarted request s =
     (if m_loadState s \<noteq> Started then Some (Inl (AssertionFailed, s))
      else
        let s1 = s\<lparr>m_loadState := Response\<rparr> in
        if (case request of None \<Rightarrow> False | Some r \<Rightarrow> is_success (req_status r))
        then
          (case maybeCallOnMainThread (DidReceiveResponse (WebResponse_of_request request)) s1 of
             Inl a \<Rightarrow> Some (Inl a)
           | Inr s2 \<Rightarrow> startReading s2)
        else Some (finish False s1))"

text \<open>\<^verbatim>\<open>void WebRequest::OnReadCompleted(URLRequest* request, int bytesRead)\<close>\<close>

definition OnReadCompleted :: "URLRequest option \<Rightarrow> int \<Rightarrow> WebRequest \<Rightarrow> outcome option" where
  "OnReadCompleted request bytesRead s =
     (if \<not> (m_loadState s = Response \<or> m_loadState s = GotData)
      then Some (Inl (AssertionFailed, s))
      else case request of
        None \<Rightarrow> Some (Inl (NullDereference, s))
      | Some r \<Rightarrow>
          if is_success (req_status r) then
            (case maybeCallOnMainThread (DidReceiveData (m_networkBuffer s) bytesRead)
                    (s\<lparr>m_loadState := GotData\<rparr>) of
               Inl a \<Rightarrow> Some (Inl a)
             | Inr s2 \<Rightarrow> startReading (s2\<lparr>m_networkBuffer := None\<rparr>))
          else Some (finish False s))"

subsection \<open>Content that does not come from the network\<close>

text \<open>\<^verbatim>\<open>void WebRequest::handleDataURL(GURL url)\<close>\<close>

definition handleDataURL :: "externals \<Rightarrow> GURL \<Rightarrow> WebRequest \<Rightarrow> outcome" where
  "handleDataURL ext url s =
     (case DataURL_Parse ext url of
        Some (mimeType, charset, dat) \<Rightarrow>
          (case maybeCallOnMainThread
                  (DidReceiveResponse
                     (WebResponse_fields (spec ext url) mimeType (int (length dat)) charset 200))
                  (s\<lparr>m_loadState := Response\<rparr>) of
             Inl a \<Rightarrow> Inl a
           | Inr s2 \<Rightarrow>
               if dat \<noteq> [] then
                 (case maybeCallOnMainThread (DidReceiveDataUrl dat)
                         (s2\<lparr>m_loadState := GotData\<rparr>) of
                    Inl a \<Rightarrow> Inl a
                  | Inr s3 \<Rightarrow> finish True s3)
               else finish True s2)
      | None \<Rightarrow> finish True s)"

text \<open>
  \<^verbatim>\<open>void WebRequest::handleBrowserURL(GURL url)\<close>.  \<^verbatim>\<open>GURL dataURL(data.c_str())\<close> reads the
  string up to its first zero byte.
\<close>

definition c_str :: "string \<Rightarrow> string" where
  "c_str xs = takeWhile (\<lambda>c. c \<noteq> CHR 0x00) xs"

definition handleBrowserURL :: "externals \<Rightarrow> GURL \<Rightarrow> WebRequest \<Rightarrow> outcome" where
  "handleBrowserURL ext url s =
     (let dat = ''data:text/html;charset=utf-8,'';
          dat' = (if spec ext url = ''browser:incognito''
                  then (case asset_open ext ''webkit/incognito_mode_start_page.html'' of
                          Some content \<Rightarrow> dat @ content
                        | None \<Rightarrow> dat)
                  else dat)
      in handleDataURL ext (GURL (c_str dat')) s)"

text \<open>
  \<^verbatim>\<open>env->GetByteArrayRegion(jb, 0, size, (jbyte*)&data->front())\<close> into a fresh
  \<^verbatim>\<open>std::vector<char>(size)\<close>: the first \<open>size\<close> bytes of the array; JNI copies nothing
  when the region does not fit, and the vector keeps its zeros.
\<close>

definition GetByteArrayRegion :: "string \<Rightarrow> nat \<Rightarrow> string" where
  "GetByteArrayRegion jb n = (if n \<le> length jb then take n jb else replicate n (CHR 0x00))"

text \<open>The \<^verbatim>\<open>do ... while (true)\<close> of \<^verbatim>\<open>WebRequest::handleAndroidURL\<close>.\<close>

partial_function (option) handleAndroidURL_loop :: "WebRequest \<Rightarrow> outcome option" where
  "handleAndroidURL_loop s =
     (if fst (shd (stream_reads s)) < 0
      then Some (Inr (s\<lparr>stream_reads := stl (stream_reads s)\<rparr>))
      else
        (case maybeCallOnMainThread
                (DidReceiveAndroidFileData
                   (GetByteArrayRegion (snd (shd (stream_reads s)))
                      (nat (fst (shd (stream_reads s))))))
                (s\<lparr>stream_reads := stl (stream_reads s), m_loadState := GotData\<rparr>) of
           Inl a \<Rightarrow> Some (Inl a)
         | Inr s2 \<Rightarrow> handleAndroidURL_loop s2))"

text \<open>
  The MIME type of \<^verbatim>\<open>handleAndroidURL\<close>: what follows the last \<^verbatim>\<open>?\<close> of the URL, else the
  type of the file extension, else \<^verbatim>\<open>text/html\<close>.
\<close>

definition android_mimeType :: "externals \<Rightarrow> string \<Rightarrow> string" where
  "android_mimeType ext url =
     (if CHR ''?'' \<in> set url then rev (takeWhile (\<lambda>c. c \<noteq> CHR ''?'') (rev url))
      else (case GetMimeTypeFromFile ext url of Some m \<Rightarrow> m | None \<Rightarrow> ''text/html''))"

text \<open>\<^verbatim>\<open>void WebRequest::handleAndroidURL()\<close>\<close>

definition handleAndroidURL :: "externals \<Rightarrow> WebRequest \<Rightarrow> outcome option" where
  "handleAndroidURL ext s =
     (if m_inputStream s = 0 then
        Some (maybeCallOnMainThread (DidFail (WebResponse_fields (m_url s) [] 0 [] 0))
                (s\<lparr>m_loadState := Finished\<rparr>))
      else
        (case maybeCallOnMainThread
                (DidReceiveResponse
                   (WebResponse_fields (m_url s) (android_mimeType ext (m_url s)) 0 [] 200))
                (s\<lparr>m_loadState := Response\<rparr>) of
           Inl a \<Rightarrow> Some (Inl a)
         | Inr s2 \<Rightarrow>
             (case handleAndroidURL_loop s2 of
                None \<Rightarrow> None
              | Some (Inl a) \<Rightarrow> Some (Inl a)
              | Some (Inr s3) \<Rightarrow> Some (finish True s3))))"

text \<open>\<^verbatim>\<open>void WebRequest::start(bool isPrivateBrowsing)\<close>\<close>

definition start :: "externals \<Rightarrow> bool \<Rightarrow> WebRequest \<Rightarrow> outcome option" where
  "start ext isPrivateBrowsing s =
     (if m_loadState s \<noteq> Created then Some (Inl (AssertionFailed, s))
      else
        let s1 = s\<lparr>m_loadState := Started\<rparr> in
        if m_androidUrl s1 then handleAndroidURL ext s1
        else case m_request s1 of
          None \<Rightarrow> Some (Inl (NullDereference, s1))
        | Some r \<Rightarrow>
            if SchemeIs ext (req_url r) ''data'' then Some (handleDataURL ext (req_url r) s1)
            else if SchemeIs ext (req_url r) ''browser''
            then Some (handleBrowserURL ext (req_url r) s1)
            else Some (Inr (s1\<lparr>m_request := Some (r\<lparr>req_context := Some isPrivateBrowsing\<rparr>),
                              effects := effects s1 @ [Called Net_Start]\<rparr>)))"

subsection \<open>Executions\<close>

text \<open>
  An execution is a sequence of calls on one object: the consumer's calls and the
  transport's callbacks, each with its arguments.  It ends when a call aborts the
  process.  The calls are taken one after the other, each running to its end before the
  next begins: two threads inside the object at once are outside this model.
\<close>

datatype invocation =
    Call_start bool
  | Call_cancel
  | Call_AppendBytesToUpload string
  | Call_setAuth string string
  | Call_cancelAuth
  | Call_OnReceivedRedirect "URLRequest option" GURL
  | Call_OnAuthRequired nat
  | Call_OnResponseStarted "URLRequest option"
  | Call_OnReadCompleted "URLRequest option" int
  | Call_destroy

fun invoke :: "externals \<Rightarrow> invocation \<Rightarrow> WebRequest \<Rightarrow> outcome option" where
  "invoke ext (Call_start p) s = start ext p s"
| "invoke ext Call_cancel s = Some (cancel s)"
| "invoke ext (Call_AppendBytesToUpload d) s = Some (AppendBytesToUpload d s)"
| "invoke ext (Call_setAuth u p) s = Some (setAuth u p s)"
| "invoke ext Call_cancelAuth s = Some (cancelAuth s)"
| "invoke ext (Call_OnReceivedRedirect r u) s = Some (OnReceivedRedirect ext r u s)"
| "invoke ext (Call_OnAuthRequired a) s = Some (OnAuthRequired a s)"
| "invoke ext (Call_OnResponseStarted r) s = OnResponseStarted r s"
| "invoke ext (Call_OnReadCompleted r n) s = OnReadCompleted r n s"
| "invoke ext Call_destroy s = Some (destroy s)"

fun run :: "externals \<Rightarrow> WebRequest \<Rightarrow> invocation list \<Rightarrow> outcome option" where
  "run ext s [] = Some (Inr s)"
| "run ext s (c # cs) =
     (case invoke ext c s of
        None \<Rightarrow> None
      | Some (Inl a) \<Rightarrow> Some (Inl a)
      | Some (Inr s') \<Rightarrow> run ext s' cs)"

section \<open>Properties of executions\<close>

text \<open>
  The log of effects only grows at its end, so every moment of an execution is a prefix
  of the final log, and a property of all prefixes of the final log is a property of
  every moment of the execution.  What a loop does up to a given turn depends only on
  the answers it has received so far, so the moments of an execution that never returns
  are moments of executions that do, with the same answers up to there.
\<close>

text \<open>The terminal notifications, and those that may precede the response.\<close>

fun is_terminal :: "notification \<Rightarrow> bool" where
  "is_terminal (DidFail r) = True"
| "is_terminal DidFinishLoading = True"
| "is_terminal n = False"

fun is_early :: "notification \<Rightarrow> bool" where
  "is_early (WillSendRequest r) = True"
| "is_early (AuthRequired a) = True"
| "is_early n = False"

text \<open>
  The buffers that are outstanding after a log: allocated and not yet forwarded to the
  consumer in a \<^verbatim>\<open>didReceiveData\<close>.
\<close>

fun track :: "nat list \<Rightarrow> effect \<Rightarrow> nat list" where
  "track os (Allocated b) = os @ [buf_id b]"
| "track os (Posted (DidReceiveData (Some b) k)) = filter (\<lambda>i. i \<noteq> buf_id b) os"
| "track os e = os"

definition outstanding :: "effect list \<Rightarrow> nat list" where
  "outstanding es = foldl track [] es"

definition at_most_one_outstanding :: "effect list \<Rightarrow> bool" where
  "at_most_one_outstanding es \<longleftrightarrow>
     list_all (\<lambda>k. length (outstanding (take k es)) \<le> 1) [0..<Suc (length es)]"

text \<open>
  A call of \<^verbatim>\<open>Read\<close> is in order when the only outstanding buffer is the one it is given.
\<close>

fun read_allowed :: "nat list \<Rightarrow> effect \<Rightarrow> bool" where
  "read_allowed os (Called (Net_Read b n)) = (os = [buf_id b])"
| "read_allowed os e = True"

definition reads_flushed :: "effect list \<Rightarrow> bool" where
  "reads_flushed es \<longleftrightarrow>
     list_all (\<lambda>k. read_allowed (outstanding (take k es)) (es ! k)) [0..<length es]"

text \<open>A terminal notification has been posted, once, and it is the last one.\<close>

definition terminal_last :: "notification list \<Rightarrow> bool" where
  "terminal_last ns \<longleftrightarrow>
     ns \<noteq> [] \<and> is_terminal (last ns) \<and> list_all (\<lambda>n. \<not> is_terminal n) (butlast ns)"

text \<open>
  The invariant of the states between two calls (\<open>consistent\<close>), what holds of the state
  in which the process aborts (\<open>safe\<close>), and what holds inside a call before \<^verbatim>\<open>finish\<close>
  (\<open>working\<close>) and at each turn of the read loop (\<open>reading\<close>).  \<open>attached\<close>: the consumer
  is still held before \<^verbatim>\<open>Finished\<close>.
\<close>

definition held :: "IOBuffer option \<Rightarrow> nat list" where
  "held b = (case b of None \<Rightarrow> [] | Some x \<Rightarrow> [buf_id x])"

definition tidy :: "effect list \<Rightarrow> bool" where
  "tidy es \<longleftrightarrow> at_most_one_outstanding es \<and> reads_flushed es"

definition consistent :: "WebRequest \<Rightarrow> bool" where
  "consistent s \<longleftrightarrow>
     (if LoadState_value (m_loadState s) < LoadState_value Finished
      then list_all (\<lambda>n. \<not> is_terminal n) (posted s)
         \<and> outstanding (effects s) = held (m_networkBuffer s)
         \<and> (\<not> m_androidUrl s \<longrightarrow> m_request s \<noteq> None)
         \<and> m_loadState s \<noteq> Cancelled
      else terminal_last (posted s)
         \<and> m_request s = None \<and> m_networkBuffer s = None
         \<and> (m_urlLoader s \<noteq> None \<longrightarrow> m_androidUrl s \<and> m_inputStream s = 0))
   \<and> tidy (effects s)
   \<and> (m_loadState s = Created \<or> m_loadState s = Started \<longrightarrow>
         list_all is_early (posted s) \<and> m_networkBuffer s = None)
   \<and> (m_androidUrl s \<longrightarrow> m_request s = None \<and> m_networkBuffer s = None
         \<and> (m_loadState s = Created \<or> m_loadState s = Finished \<or> m_loadState s = Deleted))"

definition safe :: "WebRequest \<Rightarrow> bool" where
  "safe s \<longleftrightarrow> list_all (\<lambda>n. \<not> is_terminal n) (butlast (posted s)) \<and> tidy (effects s)"

definition working :: "WebRequest \<Rightarrow> bool" where
  "working s \<longleftrightarrow>
     list_all (\<lambda>n. \<not> is_terminal n) (posted s) \<and> tidy (effects s)
   \<and> (m_androidUrl s \<longrightarrow> m_request s = None \<and> m_networkBuffer s = None)"

definition reading :: "WebRequest \<Rightarrow> bool" where
  "reading s \<longleftrightarrow>
     (m_loadState s = Response \<or> m_loadState s = GotData)
   \<and> list_all (\<lambda>n. \<not> is_terminal n) (posted s)
   \<and> tidy (effects s)
   \<and> outstanding (effects s) = held (m_networkBuffer s)
   \<and> \<not> m_androidUrl s"

definition attached :: "WebRequest \<Rightarrow> bool" where
  "attached s \<longleftrightarrow>
     (LoadState_value (m_loadState s) < LoadState_value Finished \<longrightarrow> m_urlLoader s \<noteq> None)"

definition settled :: "WebRequest \<Rightarrow> outcome \<Rightarrow> bool" where
  "settled s out =
     (case out of
        Inl a \<Rightarrow> safe (snd a)
      | Inr s' \<Rightarrow> consistent s' \<and> (attached s \<longrightarrow> attached s'))"

text \<open>The notification for one answer of the Java stream.\<close>

definition stream_chunk :: "int \<times> string \<Rightarrow> effect" where
  "stream_chunk x = Posted (DidReceiveAndroidFileData (GetByteArrayRegion (snd x) (nat (fst x))))"

subsection \<open>Concrete requests\<close>

text \<open>
  A concrete environment and concrete requests, on which the theorems are instantiated:
  a network request for a URL with given answers of the transport, a stream request with
  a given handle and given answers of the stream, and states they reach.
\<close>

definition example_externals :: externals where
  "example_externals =
     \<lparr> SchemeIs = (\<lambda>u sch. case u of GURL x \<Rightarrow> take (Suc (length sch)) x = sch @ '':''),
       spec = (\<lambda>u. case u of GURL x \<Rightarrow> x),
       DataURL_Parse = (\<lambda>u.
         if u = GURL ''data:text/plain,hello'' then Some (''text/plain'', ''US-ASCII'', ''hello'')
         else if u = GURL ''data:text/plain,'' then Some (''text/plain'', ''US-ASCII'', [])
         else None),
       GetMimeTypeFromFile = (\<lambda>p. None),
       asset_open = (\<lambda>n. None),
       NewGlobalRef = (\<lambda>i. i) \<rparr>"

definition example_request :: "string \<Rightarrow> WebResourceRequest" where
  "example_request url =
     \<lparr> wr_url = url, wr_userAgent = ''agent'', wr_requestHeaders = [], wr_referrer = [],
       wr_method = ''GET'' \<rparr>"

definition status_ok :: URLRequestStatus where
  "status_ok = \<lparr> is_success = True, is_io_pending = False \<rparr>"

definition status_pending :: URLRequestStatus where
  "status_pending = \<lparr> is_success = True, is_io_pending = True \<rparr>"

definition status_failed :: URLRequestStatus where
  "status_failed = \<lparr> is_success = False, is_io_pending = False \<rparr>"

definition example_network :: "string \<Rightarrow> (bool \<times> int \<times> URLRequestStatus) stream \<Rightarrow> WebRequest" where
  "example_network url rs =
     WebRequest_new (Some 1) (example_request url) status_ok rs (sconst (- 1, []))"

definition example_stream :: "int \<Rightarrow> (int \<times> string) stream \<Rightarrow> WebRequest" where
  "example_stream h js =
     WebRequest_new_stream example_externals (Some 1) (example_request ''content://a?text/plain'') h js"

definition example_response :: URLRequest where
  "example_response =
     \<lparr> req_url = GURL ''http://a/'', req_headers = [], req_referrer = [], req_method = ''GET'',
       req_upload = [], req_context = Some False, req_status = status_ok,
       req_reads = sconst (False, 0, status_pending) \<rparr>"

definition example_started :: "(bool \<times> int \<times> URLRequestStatus) stream \<Rightarrow> WebRequest" where
  "example_started rs =
     (example_network ''http://a/'' rs)
       \<lparr> m_loadState := Started,
         m_request := Some (example_response \<lparr> req_reads := rs \<rparr>),
         effects := [Called Net_Start] \<rparr>"

definition example_finished :: WebRequest where
  "example_finished =
     (example_network ''data:text/plain,hello'' (sconst (False, 0, status_failed)))
       \<lparr> m_loadState := Finished,
         effects := [Posted (DidReceiveResponse
                       (WebResponse_fields ''data:text/plain,hello'' ''text/plain'' 5 ''US-ASCII'' 200)),
                     Posted (DidReceiveDataUrl ''hello''), Posted DidFinishLoading],
         m_networkBuffer := None, m_request := None, m_urlLoader := None \<rparr>"

definition example_null_stream_failed :: WebRequest where
  "example_null_stream_failed =
     (example_stream 0 (sconst (- 1, [])))
       \<lparr> m_loadState := Finished,
         effects := [Posted (DidFail (WebResponse_fields ''content://a?text/plain'' [] 0 [] 0))] \<rparr>"

definition example_two_reads :: WebRequest where
  "example_two_reads =
     (example_network ''http://a/'' ((True, 5, status_ok) ## sconst (False, 0, status_pending)))
       \<lparr> m_loadState := GotData,
         m_request := Some (example_response \<lparr> req_status := status_pending \<rparr>),
         m_networkBuffer := Some \<lparr>buf_id = 1, buf_size = 32768\<rparr>,
         next_buffer := 2,
         effects := [Called Net_Start,
                     Posted (DidReceiveResponse (WebResponse_of_request (Some example_response))),
                     Allocated \<lparr>buf_id = 0, buf_size = 32768\<rparr>,
                     Called (Net_Read \<lparr>buf_id = 0, buf_size = 32768\<rparr> 32768),
                     Posted (DidReceiveData (Some \<lparr>buf_id = 0, buf_size = 32768\<rparr>) 5),
                     Allocated \<lparr>buf_id = 1, buf_size = 32768\<rparr>,
                     Called (Net_Read \<lparr>buf_id = 1, buf_size = 32768\<rparr> 32768)] \<rparr>"

definition example_reading :: "(bool \<times> int \<times> URLRequestStatus) stream \<Rightarrow> WebRequest" where
  "example_reading rs =
     (example_started rs)
       \<lparr> m_loadState := Response,
         effects := [Called Net_Start,
                     Posted (DidReceiveResponse (WebResponse_of_request (Some example_response)))] \<rparr>"

definition example_after_read ::
  "(bool \<times> int \<times> URLRequestStatus) stream \<Rightarrow> URLRequestStatus \<Rightarrow> (bool \<times> int \<times> URLRequestStatus) stream
   \<Rightarrow> WebRequest" where
  "example_after_read rs st rs' =
     (example_reading rs)
       \<lparr> m_networkBuffer := Some \<lparr>buf_id = 0, buf_size = 32768\<rparr>,
         next_buffer := 1,
         effects := effects (example_reading rs) @
           [Allocated \<lparr>buf_id = 0, buf_size = 32768\<rparr>,
            Called (Net_Read \<lparr>buf_id = 0, buf_size = 32768\<rparr> 32768)],
         m_request := Some (example_response \<lparr> req_status := st, req_reads := rs' \<rparr>) \<rparr>"

definition example_streaming :: WebRequest where
  "example_streaming =
     (example_stream 7 ((3, ''abcde'') ## (0, ''abcde'') ## sconst (- 1, [])))
       \<lparr> m_loadState := Started \<rparr>"

definition example_waiting :: WebRequest where
  "example_waiting =
     (example_network ''http://a/'' ((False, 0, status_pending) ## sconst (True, 0, status_ok)))
       \<lparr> m_loadState := Response,
         m_request := Some (example_response \<lparr> req_status := status_pending,
                                                 req_reads := sconst (True, 0, status_ok) \<rparr>),
         m_networkBuffer := Some \<lparr>buf_id = 0, buf_size = 32768\<rparr>,
         next_buffer := 1,
         effects := [Called Net_Start,
                     Posted (DidReceiveResponse (WebResponse_of_request (Some example_response))),
                     Allocated \<lparr>buf_id = 0, buf_size = 32768\<rparr>,
                     Called (Net_Read \<lparr>buf_id = 0, buf_size = 32768\<rparr> 32768)] \<rparr>"

section \<open>The invariant and its preservation\<close>

lemma posted_of_append: "posted_of (xs @ ys) = posted_of xs @ posted_of ys"
  by (induction xs rule: posted_of.induct) simp_all

lemma outstanding_snoc: "outstanding (es @ [e]) = track (outstanding es) e"
  by (simp add: outstanding_def)

lemma at_most_one_outstanding_snoc:
  "at_most_one_outstanding (es @ [e]) \<longleftrightarrow>
     at_most_one_outstanding es \<and> length (track (outstanding es) e) \<le> 1"
proof -
  have "\<And>k. k \<le> length es \<Longrightarrow> take k (es @ [e]) = take k es" by simp
  then show ?thesis
    by (auto simp add: at_most_one_outstanding_def list_all_iff outstanding_snoc less_Suc_eq_le
          simp del: take_append)
qed

lemma reads_flushed_snoc:
  "reads_flushed (es @ [e]) \<longleftrightarrow> reads_flushed es \<and> read_allowed (outstanding es) e"
  by (auto simp add: reads_flushed_def list_all_iff nth_append less_Suc_eq)

lemma tidy_snoc:
  "tidy (es @ [e]) \<longleftrightarrow>
     tidy es \<and> length (track (outstanding es) e) \<le> 1 \<and> read_allowed (outstanding es) e"
  by (auto simp add: tidy_def at_most_one_outstanding_snoc reads_flushed_snoc)

lemma tidy_Nil: "tidy []"
  by (simp add: tidy_def at_most_one_outstanding_def reads_flushed_def outstanding_def)

lemma tidy_length: "tidy es \<Longrightarrow> length (outstanding es) \<le> 1"
  by (simp add: tidy_def at_most_one_outstanding_def list_all_iff)

lemmas posted_simps = posted_def posted_of_append

lemma outstanding_snoc2: "outstanding (es @ [a, b]) = track (track (outstanding es) a) b"
  by (simp add: outstanding_def)

lemma tidy_snoc2:
  "tidy (es @ [a, b]) \<longleftrightarrow>
     tidy es \<and> length (track (outstanding es) a) \<le> 1 \<and> read_allowed (outstanding es) a
   \<and> length (track (track (outstanding es) a) b) \<le> 1
   \<and> read_allowed (track (outstanding es) a) b"
  using tidy_snoc [of "es @ [a]" b] tidy_snoc [of es a] by (simp add: outstanding_snoc)

lemma safe_of_consistent: "consistent s \<Longrightarrow> safe s"
  by (auto simp add: consistent_def safe_def terminal_last_def list_all_iff
        split: if_splits dest: in_set_butlastD)

lemma safe_of_working: "working s \<Longrightarrow> safe s"
  by (auto simp add: working_def safe_def list_all_iff dest: in_set_butlastD)

lemma finish_settled:
  assumes "working s"
  shows "case finish b s of Inl a \<Rightarrow> safe (snd a) | Inr s' \<Rightarrow> consistent s' \<and> attached s'"
proof (cases "LoadState_value (m_loadState s) < LoadState_value Finished")
  case False
  then show ?thesis using safe_of_working [OF assms] by (simp add: finish_def)
next
  case True
  show ?thesis
  proof (cases "m_urlLoader s")
    case None
    have "safe (s\<lparr>m_loadState := Finished\<rparr>)"
      using safe_of_working [OF assms] by (simp add: safe_def posted_def)
    then show ?thesis using True None by (simp add: finish_def maybeCallOnMainThread_def)
  next
    case (Some l)
    let ?t = "if b then DidFinishLoading else DidFail (WebResponse_of_request (m_request s))"
    let ?s' = "s\<lparr>m_loadState := Finished, effects := effects s @ [Posted ?t],
                 m_networkBuffer := None, m_request := None, m_urlLoader := None\<rparr>"
    have f: "finish b s = Inr ?s'"
      using True Some by (simp add: finish_def maybeCallOnMainThread_def)
    have p: "posted ?s' = posted s @ [?t]" by (simp add: posted_simps)
    have t: "tidy (effects ?s')"
      using assms tidy_length [of "effects s"] by (simp add: working_def tidy_snoc)
    have "consistent ?s'"
      using assms t unfolding consistent_def p
      by (auto simp add: working_def terminal_last_def)
    then show ?thesis by (simp add: f attached_def)
  qed
qed

lemma read_Inl:
  assumes "reading s" "read s = Inl a"
  shows "safe (snd a)"
proof -
  have sf: "safe s" using assms(1) by (auto simp add: reading_def safe_def list_all_iff dest: in_set_butlastD)
  show ?thesis
  proof (cases "(m_loadState s = Response \<or> m_loadState s = GotData) \<and> m_networkBuffer s = None")
    case False
    then have "a = (AssertionFailed, s)" using assms(2) by (auto simp add: read_def split: if_splits)
    then show ?thesis using sf by simp
  next
    case True
    let ?b = "\<lparr>buf_id = next_buffer s, buf_size = kInitialReadBufSize\<rparr>"
    let ?s1 = "s\<lparr>m_networkBuffer := Some ?b, next_buffer := Suc (next_buffer s),
                   effects := effects s @ [Allocated ?b]\<rparr>"
    have "a = (NullDereference, ?s1)"
      using assms(2) True by (auto simp add: read_def Let_def split: if_splits option.splits)
    moreover have "safe ?s1"
      using assms(1) True sf by (simp add: safe_def reading_def tidy_snoc held_def posted_simps)
    ultimately show ?thesis by simp
  qed
qed

lemma read_Inr:
  assumes "reading s" "read s = Inr (ok, n, s1)"
  shows "m_loadState s1 = m_loadState s \<and> posted s1 = posted s \<and> m_urlLoader s1 = m_urlLoader s
     \<and> m_androidUrl s1 = m_androidUrl s
     \<and> m_networkBuffer s1 = Some \<lparr>buf_id = next_buffer s, buf_size = kInitialReadBufSize\<rparr>
     \<and> m_request s1 \<noteq> None \<and> outstanding (effects s1) = [next_buffer s] \<and> tidy (effects s1)"
proof -
  have T: "(m_loadState s = Response \<or> m_loadState s = GotData) \<and> m_networkBuffer s = None"
    using assms(2) by (auto simp add: read_def split: if_splits)
  obtain r where r: "m_request s = Some r"
    using assms(2) T by (auto simp add: read_def Let_def split: if_splits option.splits)
  let ?b = "\<lparr>buf_id = next_buffer s, buf_size = kInitialReadBufSize\<rparr>"
  have s1: "s1 = s\<lparr>m_networkBuffer := Some ?b, next_buffer := Suc (next_buffer s),
                   effects := effects s @ [Allocated ?b, Called (Net_Read ?b kInitialReadBufSize)],
                   m_request := Some (r\<lparr>req_status := snd (snd (shd (req_reads r))),
                                             req_reads := stl (req_reads r)\<rparr>)\<rparr>"
    using assms(2) T r by (auto simp add: read_def Let_def)
  have o: "outstanding (effects s) = []" using assms(1) T by (simp add: reading_def held_def)
  have e: "effects s1 = effects s @ [Allocated ?b, Called (Net_Read ?b kInitialReadBufSize)]"
    by (simp add: s1)
  have t: "tidy (effects s1)"
    unfolding e using assms(1) o by (simp add: tidy_snoc2 reading_def)
  have o1: "outstanding (effects s1) = [next_buffer s]"
    unfolding e using o by (simp add: outstanding_snoc2)
  have p: "posted s1 = posted s"
    unfolding posted_def e by (simp add: posted_of_append)
  show ?thesis using t o1 p by (simp add: s1)
qed

lemma startReading_loop_settled:
  assumes "startReading_loop s0 = Some out0"
  shows "reading s0 \<longrightarrow> settled s0 out0"
proof (rule startReading_loop.raw_induct
         [where P = "\<lambda>s out. reading s \<longrightarrow> settled s out", OF _ assms])
  fix loop :: "WebRequest \<Rightarrow> outcome option" and s out
  assume 1: "\<And>x y. loop x = Some y \<Longrightarrow> reading x \<longrightarrow> settled x y"
    "(case read s of
        Inl a \<Rightarrow> Some (Inl a)
      | Inr res \<Rightarrow>
          if fst res then
            if fst (snd res) = 0 then Some (finish True (snd (snd res)))
            else
              (case maybeCallOnMainThread
                      (DidReceiveData (m_networkBuffer (snd (snd res))) (fst (snd res)))
                      ((snd (snd res))\<lparr>m_loadState := GotData\<rparr>) of
                 Inl a \<Rightarrow> Some (Inl a)
               | Inr s2 \<Rightarrow> loop (s2\<lparr>m_networkBuffer := None\<rparr>))
          else if (case m_request (snd (snd res)) of
                     None \<Rightarrow> False
                   | Some r \<Rightarrow> is_io_pending (req_status r))
          then Some (Inr (snd (snd res)))
          else Some (finish False (snd (snd res)))) = Some out"
  show "reading s \<longrightarrow> settled s out"
  proof
    assume rs: "reading s"
    show "settled s out"
    proof (cases "read s")
      case (Inl a)
      with 1(2) have "out = Inl a" by simp
      then show ?thesis using read_Inl [OF rs Inl] by (simp add: settled_def)
    next
      case (Inr res)
      obtain ok n s1 where res: "res = (ok, n, s1)" by (cases res) auto
      note r = read_Inr [OF rs Inr [unfolded res]]
      have nt: "list_all (\<lambda>n. \<not> is_terminal n) (posted s1)" using r rs by (simp add: reading_def)
      have w: "working s1" using r nt rs by (simp add: working_def reading_def)
      note fin = finish_settled [OF w]
      consider (eof) "ok" "n = 0" | (data) "ok" "n \<noteq> 0"
        | (pending) "\<not> ok" "case m_request s1 of None \<Rightarrow> False | Some r \<Rightarrow> is_io_pending (req_status r)"
        | (failed) "\<not> ok" "\<not> (case m_request s1 of None \<Rightarrow> False | Some r \<Rightarrow> is_io_pending (req_status r))"
        by blast
      then show ?thesis
      proof cases
        case eof
        then have "out = finish True s1" using 1(2) Inr res by simp
        then show ?thesis using fin [of True] by (auto simp add: settled_def split: sum.splits)
      next
        case failed
        then have "out = finish False s1" using 1(2) Inr res by simp
        then show ?thesis using fin [of False] by (auto simp add: settled_def split: sum.splits)
      next
        case pending
        then have "out = Inr s1" using 1(2) Inr res by simp
        moreover have "consistent s1"
          using r rs nt by (auto simp add: consistent_def reading_def held_def)
        moreover have "attached s \<longrightarrow> attached s1"
          using r by (simp add: attached_def)
        ultimately show ?thesis by (simp add: settled_def)
      next
        case data
        show ?thesis
        proof (cases "m_urlLoader s1")
          case None
          then have "out = Inl (NullDereference, s1\<lparr>m_loadState := GotData\<rparr>)"
            using 1(2) Inr res data by (simp add: maybeCallOnMainThread_def)
          moreover have "safe (s1\<lparr>m_loadState := GotData\<rparr>)"
            using safe_of_working [OF w] by (simp add: safe_def posted_def)
          ultimately show ?thesis by (simp add: settled_def)
        next
          case (Some l)
          let ?s2 = "s1\<lparr>m_loadState := GotData,
                       effects := effects s1 @ [Posted (DidReceiveData (m_networkBuffer s1) n)],
                       m_networkBuffer := None\<rparr>"
          have lp: "loop ?s2 = Some out"
            using 1(2) Inr res data Some by (simp add: maybeCallOnMainThread_def)
          have rd2: "reading ?s2"
            using r rs nt
            by (simp add: reading_def outstanding_snoc tidy_snoc held_def posted_simps)
          have "settled ?s2 out" using 1(1) [OF lp] rd2 by blast
          moreover have "attached ?s2"
            using Some by (simp add: attached_def)
          ultimately show ?thesis by (auto simp add: settled_def split: sum.splits)
        qed
      qed
    qed
  qed
qed

lemma startReading_settled:
  assumes "startReading s = Some out" "reading s"
  shows "settled s out"
  using assms startReading_loop_settled [of s out]
  by (simp add: startReading_def reading_def split: if_splits)

lemma handleAndroidURL_loop_working:
  assumes "handleAndroidURL_loop s0 = Some out0"
  shows "working s0 \<longrightarrow> (case out0 of Inl a \<Rightarrow> safe (snd a) | Inr s' \<Rightarrow> working s' \<and> m_urlLoader s' = m_urlLoader s0)"
proof (rule handleAndroidURL_loop.raw_induct
         [where P = "\<lambda>s out. working s \<longrightarrow> (case out of Inl a \<Rightarrow> safe (snd a) | Inr s' \<Rightarrow> working s' \<and> m_urlLoader s' = m_urlLoader s)", OF _ assms])
  fix loop :: "WebRequest \<Rightarrow> outcome option" and s out
  assume 1: "\<And>x y. loop x = Some y \<Longrightarrow>
      working x \<longrightarrow> (case y of Inl a \<Rightarrow> safe (snd a) | Inr s' \<Rightarrow> working s' \<and> m_urlLoader s' = m_urlLoader x)"
    "(if fst (shd (stream_reads s)) < 0
      then Some (Inr (s\<lparr>stream_reads := stl (stream_reads s)\<rparr>))
      else
        (case maybeCallOnMainThread
                (DidReceiveAndroidFileData
                   (GetByteArrayRegion (snd (shd (stream_reads s)))
                      (nat (fst (shd (stream_reads s))))))
                (s\<lparr>stream_reads := stl (stream_reads s), m_loadState := GotData\<rparr>) of
           Inl a \<Rightarrow> Some (Inl a)
         | Inr s2 \<Rightarrow> loop s2)) = Some out"
  show "working s \<longrightarrow> (case out of Inl a \<Rightarrow> safe (snd a) | Inr s' \<Rightarrow> working s' \<and> m_urlLoader s' = m_urlLoader s)"
  proof
    assume w: "working s"
    show "case out of Inl a \<Rightarrow> safe (snd a) | Inr s' \<Rightarrow> working s' \<and> m_urlLoader s' = m_urlLoader s"
    proof (cases "fst (shd (stream_reads s)) < 0")
      case True
      then have "out = Inr (s\<lparr>stream_reads := stl (stream_reads s)\<rparr>)" using 1(2) by simp
      then show ?thesis using w by (simp add: working_def posted_def)
    next
      case False
      show ?thesis
      proof (cases "m_urlLoader s")
        case None
        then have "out = Inl (NullDereference, s\<lparr>stream_reads := stl (stream_reads s), m_loadState := GotData\<rparr>)"
          using 1(2) False by (simp add: maybeCallOnMainThread_def)
        then show ?thesis using safe_of_working [OF w] by (simp add: safe_def posted_def)
      next
        case (Some l)
        let ?s2 = "s\<lparr>stream_reads := stl (stream_reads s), m_loadState := GotData,
               effects := effects s @ [Posted (DidReceiveAndroidFileData
                   (GetByteArrayRegion (snd (shd (stream_reads s)))
                      (nat (fst (shd (stream_reads s))))))]\<rparr>"
        have lp: "loop ?s2 = Some out"
          using 1(2) False Some by (simp add: maybeCallOnMainThread_def)
        have w2: "working ?s2"
          using w tidy_length [of "effects s"] by (simp add: working_def tidy_snoc posted_simps)
        show ?thesis using 1(1) [OF lp] w2 by (auto split: sum.splits)
      qed
    qed
  qed
qed

lemma handleDataURL_settled:
  assumes "working s"
  shows "case handleDataURL ext url s of Inl a \<Rightarrow> safe (snd a) | Inr s' \<Rightarrow> consistent s' \<and> attached s'"
proof (cases "DataURL_Parse ext url")
  case None
  then show ?thesis using finish_settled [OF assms, of True] by (simp add: handleDataURL_def)
next
  case (Some res)
  obtain mimeType charset dat where res: "res = (mimeType, charset, dat)" by (cases res) auto
  show ?thesis
  proof (cases "m_urlLoader s")
    case None
    then have "handleDataURL ext url s = Inl (NullDereference, s\<lparr>m_loadState := Response\<rparr>)"
      using Some res by (simp add: handleDataURL_def maybeCallOnMainThread_def)
    then show ?thesis using safe_of_working [OF assms] by (simp add: safe_def posted_def)
  next
    case l: (Some l)
    let ?r = "Posted (DidReceiveResponse
                     (WebResponse_fields (spec ext url) mimeType (int (length dat)) charset 200))"
    let ?s2 = "s\<lparr>m_loadState := Response, effects := effects s @ [?r]\<rparr>"
    let ?s3 = "s\<lparr>m_loadState := GotData, effects := effects s @ [?r, Posted (DidReceiveDataUrl dat)]\<rparr>"
    have w2: "working ?s2"
      using assms tidy_length [of "effects s"] by (simp add: working_def tidy_snoc posted_simps)
    have w3: "working ?s3"
      using assms tidy_length [of "effects s"] by (simp add: working_def tidy_snoc2 posted_simps)
    have h3: "dat \<noteq> [] \<Longrightarrow> handleDataURL ext url s = finish True ?s3"
      using Some res l by (simp add: handleDataURL_def maybeCallOnMainThread_def)
    have h2: "dat = [] \<Longrightarrow> handleDataURL ext url s = finish True ?s2"
      using Some res l by (simp add: handleDataURL_def maybeCallOnMainThread_def)
    show ?thesis
    proof (cases "dat = []")
      case False
      show ?thesis unfolding h3 [OF False] by (rule finish_settled [OF w3])
    next
      case True
      show ?thesis unfolding h2 [OF True] by (rule finish_settled [OF w2])
    qed
  qed
qed

lemma handleBrowserURL_settled:
  assumes "working s"
  shows "case handleBrowserURL ext url s of Inl a \<Rightarrow> safe (snd a) | Inr s' \<Rightarrow> consistent s' \<and> attached s'"
  using handleDataURL_settled [OF assms] by (simp add: handleBrowserURL_def Let_def)

lemma working_of_consistent:
  "consistent s \<Longrightarrow> LoadState_value (m_loadState s) < LoadState_value Finished \<Longrightarrow> working s"
  by (simp add: consistent_def working_def)

lemma settled_abort: "consistent s \<Longrightarrow> settled s (Inl (f, s))"
  by (simp add: settled_def safe_of_consistent)

lemma settled_finish: "working s' \<Longrightarrow> settled s (finish b s')"
  using finish_settled [of s' b] by (auto simp add: settled_def split: sum.splits)

lemma handleAndroidURL_settled:
  assumes "consistent s" "m_loadState s = Created" "m_androidUrl s"
    "handleAndroidURL ext (s\<lparr>m_loadState := Started\<rparr>) = Some out"
  shows "settled s out"
proof -
  let ?s1 = "s\<lparr>m_loadState := Started\<rparr>"
  have w: "working s" using assms(1,2) by (simp add: working_of_consistent)
  have an: "m_request s = None \<and> m_networkBuffer s = None"
    using assms(1,3) by (simp add: consistent_def)
  show ?thesis
  proof (cases "m_inputStream s = 0")
    case True
    show ?thesis
    proof (cases "m_urlLoader s")
      case None
      then have "out = Inl (NullDereference, s\<lparr>m_loadState := Finished\<rparr>)"
        using assms(4) True by (simp add: handleAndroidURL_def maybeCallOnMainThread_def)
      then show ?thesis using safe_of_working [OF w] by (simp add: settled_def safe_def posted_def)
    next
      case (Some l)
      let ?s' = "s\<lparr>m_loadState := Finished,
                   effects := effects s @ [Posted (DidFail (WebResponse_fields (m_url s) [] 0 [] 0))]\<rparr>"
      have o: "out = Inr ?s'"
        using assms(4) True Some by (simp add: handleAndroidURL_def maybeCallOnMainThread_def)
      have "consistent ?s'"
        using w an assms(3) True tidy_length [of "effects s"]
        by (simp add: consistent_def working_def tidy_snoc terminal_last_def posted_simps)
      then show ?thesis by (simp add: o settled_def attached_def)
    qed
  next
    case False
    show ?thesis
    proof (cases "m_urlLoader s")
      case None
      then have "out = Inl (NullDereference, s\<lparr>m_loadState := Response\<rparr>)"
        using assms(4) False by (simp add: handleAndroidURL_def maybeCallOnMainThread_def)
      then show ?thesis using safe_of_working [OF w] by (simp add: settled_def safe_def posted_def)
    next
      case (Some l)
      let ?s2 = "s\<lparr>m_loadState := Response,
                   effects := effects s @ [Posted (DidReceiveResponse
                   (WebResponse_fields (m_url s) (android_mimeType ext (m_url s)) 0 [] 200))]\<rparr>"
      have w2: "working ?s2"
        using w tidy_length [of "effects s"] by (simp add: working_def tidy_snoc posted_simps)
      have o: "(case handleAndroidURL_loop ?s2 of
                None \<Rightarrow> None
              | Some (Inl a) \<Rightarrow> Some (Inl a)
              | Some (Inr s3) \<Rightarrow> Some (finish True s3)) = Some out"
        using assms(4) False Some by (simp add: handleAndroidURL_def maybeCallOnMainThread_def)
      then obtain out' where lp: "handleAndroidURL_loop ?s2 = Some out'"
        by (cases "handleAndroidURL_loop ?s2") auto
      note l = handleAndroidURL_loop_working [OF lp, rule_format, OF w2]
      show ?thesis
      proof (cases out')
        case (Inl a)
        then have "out = Inl a" using o lp by simp
        then show ?thesis using l Inl by (simp add: settled_def)
      next
        case (Inr s3)
        then have "out = finish True s3" using o lp by simp
        then show ?thesis using l Inr settled_finish [of s3 s True] by simp
      qed
    qed
  qed
qed

lemma start_settled:
  assumes "consistent s" "start ext p s = Some out"
  shows "settled s out"
proof (cases "m_loadState s = Created")
  case False
  then show ?thesis using assms by (auto simp add: start_def settled_abort)
next
  case True
  have w: "working s" using assms(1) True by (simp add: working_of_consistent)
  let ?s1 = "s\<lparr>m_loadState := Started\<rparr>"
  have w1: "working ?s1" using w by (simp add: working_def posted_def)
  show ?thesis
  proof (cases "m_androidUrl s")
    case a: True
    then have "handleAndroidURL ext ?s1 = Some out" using assms(2) True by (simp add: start_def)
    then show ?thesis using handleAndroidURL_settled [OF assms(1) True a] by simp
  next
    case a: False
    then obtain r where r: "m_request s = Some r"
      using assms(1) True by (auto simp add: consistent_def)
    consider (dat) "SchemeIs ext (req_url r) ''data''"
      | (browser) "\<not> SchemeIs ext (req_url r) ''data''" "SchemeIs ext (req_url r) ''browser''"
      | (net) "\<not> SchemeIs ext (req_url r) ''data''" "\<not> SchemeIs ext (req_url r) ''browser''"
      by blast
    then show ?thesis
    proof cases
      case dat
      then have "out = handleDataURL ext (req_url r) ?s1"
        using assms(2) True a r by (simp add: start_def)
      then show ?thesis using handleDataURL_settled [OF w1, of ext "req_url r"]
        by (auto simp add: settled_def split: sum.splits)
    next
      case browser
      then have "out = handleBrowserURL ext (req_url r) ?s1"
        using assms(2) True a r by (simp add: start_def)
      then show ?thesis using handleBrowserURL_settled [OF w1, of ext "req_url r"]
        by (auto simp add: settled_def split: sum.splits)
    next
      case net
      let ?s' = "s\<lparr>m_loadState := Started, m_request := Some (r\<lparr>req_context := Some p\<rparr>),
                              effects := effects s @ [Called Net_Start]\<rparr>"
      have o: "out = Inr ?s'"
        using assms(2) True a r net by (simp add: start_def)
      have "consistent ?s'"
        using assms(1) True a tidy_length [of "effects s"]
        by (simp add: consistent_def tidy_snoc posted_simps outstanding_snoc)
      moreover have "attached s \<longrightarrow> attached ?s'" using True by (simp add: attached_def)
      ultimately show ?thesis by (simp add: o settled_def)
    qed
  qed
qed

lemma cancel_settled:
  assumes "consistent s"
  shows "settled s (cancel s)"
proof -
  consider (a) "cancel s = Inl (AssertionFailed, s)" | (b) "cancel s = Inr s"
    | (c) "LoadState_value (m_loadState s) < LoadState_value Finished"
          "cancel s = finish True (s\<lparr>m_loadState := Cancelled, effects := effects s @ [Called Net_Cancel]\<rparr>)"
    by (cases "m_loadState s"; cases "m_request s") (auto simp add: cancel_def)
  then show ?thesis
  proof cases
    case a
    then show ?thesis using assms by (simp add: settled_abort)
  next
    case b
    then show ?thesis using assms by (simp add: settled_def)
  next
    case c
    have "working (s\<lparr>m_loadState := Cancelled, effects := effects s @ [Called Net_Cancel]\<rparr>)"
      using working_of_consistent [OF assms c(1)] tidy_length [of "effects s"]
      by (simp add: working_def tidy_snoc posted_simps)
    then show ?thesis unfolding c(2) by (rule settled_finish)
  qed
qed

lemma AppendBytesToUpload_settled:
  assumes "consistent s"
  shows "settled s (AppendBytesToUpload d s)"
proof (cases "m_loadState s = Created \<and> m_request s \<noteq> None")
  case False
  then have "\<exists>f. AppendBytesToUpload d s = Inl (f, s)"
    by (auto simp add: AppendBytesToUpload_def)
  then show ?thesis using assms by (auto simp add: settled_abort)
next
  case True
  then obtain r where r: "m_request s = Some r" by auto
  have "consistent (s\<lparr>m_request := Some (r\<lparr>req_upload := req_upload r @ [d]\<rparr>),
                 effects := effects s @ [Called (Net_AppendBytesToUpload d)]\<rparr>)"
    using assms True tidy_length [of "effects s"]
    by (simp add: consistent_def tidy_snoc posted_simps outstanding_snoc)
  then show ?thesis using True r by (simp add: AppendBytesToUpload_def settled_def attached_def)
qed

lemma setAuth_settled:
  assumes "consistent s"
  shows "settled s (setAuth u p s)"
proof (cases "m_loadState s = Started \<and> m_request s \<noteq> None")
  case False
  then have "\<exists>f. setAuth u p s = Inl (f, s)"
    by (auto simp add: setAuth_def)
  then show ?thesis using assms by (auto simp add: settled_abort)
next
  case True
  then obtain r where r: "m_request s = Some r" by auto
  have "consistent (s\<lparr>effects := effects s @ [Called (Net_SetAuth u p)]\<rparr>)"
    using assms True tidy_length [of "effects s"]
    by (simp add: consistent_def tidy_snoc posted_simps outstanding_snoc)
  then show ?thesis using True r by (simp add: setAuth_def settled_def attached_def)
qed

lemma cancelAuth_settled:
  assumes "consistent s"
  shows "settled s (cancelAuth s)"
proof (cases "m_loadState s = Started \<and> m_request s \<noteq> None")
  case False
  then have "\<exists>f. cancelAuth s = Inl (f, s)"
    by (auto simp add: cancelAuth_def)
  then show ?thesis using assms by (auto simp add: settled_abort)
next
  case True
  then obtain r where r: "m_request s = Some r" by auto
  have "consistent (s\<lparr>effects := effects s @ [Called Net_CancelAuth]\<rparr>)"
    using assms True tidy_length [of "effects s"]
    by (simp add: consistent_def tidy_snoc posted_simps outstanding_snoc)
  then show ?thesis using True r by (simp add: cancelAuth_def settled_def attached_def)
qed

lemma post_early_settled:
  assumes "consistent s" "m_loadState s = Created \<or> m_loadState s = Started" "is_early n"
  shows "settled s (maybeCallOnMainThread n s)"
proof (cases "m_urlLoader s")
  case None
  then show ?thesis using assms(1) by (simp add: maybeCallOnMainThread_def settled_abort)
next
  case (Some l)
  have nt: "\<not> is_terminal n" using assms(3) by (cases n) auto
  have tr: "\<And>os. track os (Posted n) = os" using assms(3) by (cases n) auto
  have "consistent (s\<lparr>effects := effects s @ [Posted n]\<rparr>)"
    using assms tidy_length [of "effects s"] nt tr
    by (auto simp add: consistent_def tidy_snoc posted_simps outstanding_snoc)
  then show ?thesis using Some by (simp add: maybeCallOnMainThread_def settled_def attached_def)
qed

lemma OnReceivedRedirect_settled:
  assumes "consistent s"
  shows "settled s (OnReceivedRedirect ext r u s)"
proof (cases "LoadState_value (m_loadState s) < LoadState_value Response")
  case False
  then show ?thesis using assms by (simp add: OnReceivedRedirect_def settled_abort)
next
  case True
  then have st: "m_loadState s = Created \<or> m_loadState s = Started"
    by (cases "m_loadState s") auto
  have same: "settled s (Inr s)" using assms by (simp add: settled_def)
  show ?thesis
    using True same post_early_settled [OF assms st, of "WillSendRequest (WebResponse_of_request_url r (spec ext u))"]
    by (auto simp add: OnReceivedRedirect_def split: option.splits)
qed

lemma OnAuthRequired_settled:
  assumes "consistent s"
  shows "settled s (OnAuthRequired a s)"
proof (cases "m_loadState s = Started")
  case False
  then show ?thesis using assms by (simp add: OnAuthRequired_def settled_abort)
next
  case True
  then show ?thesis using post_early_settled [OF assms, of "AuthRequired a"]
    by (simp add: OnAuthRequired_def)
qed

lemma destroy_settled:
  assumes "consistent s"
  shows "settled s (destroy s)"
proof (cases "m_loadState s = Finished")
  case False
  then show ?thesis using assms by (simp add: destroy_def settled_abort)
next
  case True
  have "consistent (s\<lparr>m_loadState := Deleted\<rparr>)"
    using assms True by (simp add: consistent_def posted_def)
  then show ?thesis using True by (simp add: destroy_def settled_def attached_def)
qed

lemma OnResponseStarted_settled:
  assumes "consistent s" "OnResponseStarted rq s = Some out"
  shows "settled s out"
proof (cases "m_loadState s = Started")
  case False
  then show ?thesis using assms by (auto simp add: OnResponseStarted_def settled_abort)
next
  case True
  have w: "working s" using assms(1) True by (simp add: working_of_consistent)
  let ?s1 = "s\<lparr>m_loadState := Response\<rparr>"
  have w1: "working ?s1" using w by (simp add: working_def posted_def)
  have na: "\<not> m_androidUrl s" using assms(1) True by (auto simp add: consistent_def)
  show ?thesis
  proof (cases "case rq of None \<Rightarrow> False | Some r \<Rightarrow> is_success (req_status r)")
    case False
    then have "out = finish False ?s1"
      using assms(2) True by (simp add: OnResponseStarted_def)
    then show ?thesis using settled_finish [OF w1] by simp
  next
    case ok: True
    show ?thesis
    proof (cases "m_urlLoader s")
      case None
      then have "out = Inl (NullDereference, ?s1)"
        using assms(2) True ok by (simp add: OnResponseStarted_def maybeCallOnMainThread_def)
      then show ?thesis using safe_of_working [OF w1] by (simp add: settled_def)
    next
      case (Some l)
      let ?s2 = "s\<lparr>m_loadState := Response,
                   effects := effects s @ [Posted (DidReceiveResponse (WebResponse_of_request rq))]\<rparr>"
      have sr: "startReading ?s2 = Some out"
        using assms(2) True ok Some by (simp add: OnResponseStarted_def maybeCallOnMainThread_def)
      have rd: "reading ?s2"
        using assms(1) True na tidy_length [of "effects s"]
        by (simp add: reading_def consistent_def tidy_snoc outstanding_snoc posted_simps)
      have "settled ?s2 out" by (rule startReading_settled [OF sr rd])
      moreover have "attached ?s2" using Some by (simp add: attached_def)
      ultimately show ?thesis by (auto simp add: settled_def split: sum.splits)
    qed
  qed
qed

lemma OnReadCompleted_settled:
  assumes "consistent s" "OnReadCompleted rq n s = Some out"
  shows "settled s out"
proof (cases "m_loadState s = Response \<or> m_loadState s = GotData")
  case False
  then show ?thesis using assms by (auto simp add: OnReadCompleted_def settled_abort)
next
  case True
  then have pre: "LoadState_value (m_loadState s) < LoadState_value Finished" by auto
  have w: "working s" using assms(1) pre by (simp add: working_of_consistent)
  have na: "\<not> m_androidUrl s" using assms(1) True by (auto simp add: consistent_def)
  show ?thesis
  proof (cases rq)
    case None
    then show ?thesis using assms True by (auto simp add: OnReadCompleted_def settled_abort)
  next
    case (Some r)
    show ?thesis
    proof (cases "is_success (req_status r)")
      case False
      then have "out = finish False s"
        using assms(2) True Some by (auto simp add: OnReadCompleted_def)
      then show ?thesis using settled_finish [OF w] by simp
    next
      case ok: True
      show ?thesis
      proof (cases "m_urlLoader s")
        case None
        then have "out = Inl (NullDereference, s\<lparr>m_loadState := GotData\<rparr>)"
          using assms(2) True ok Some by (auto simp add: OnReadCompleted_def maybeCallOnMainThread_def)
        then show ?thesis using safe_of_working [OF w] by (simp add: settled_def safe_def posted_def)
      next
        case l: (Some l)
        let ?s2 = "s\<lparr>m_loadState := GotData,
                     effects := effects s @ [Posted (DidReceiveData (m_networkBuffer s) n)],
                     m_networkBuffer := None\<rparr>"
        have sr: "startReading ?s2 = Some out"
          using assms(2) True ok Some l by (auto simp add: OnReadCompleted_def maybeCallOnMainThread_def)
        have o: "outstanding (effects s) = held (m_networkBuffer s)"
          using assms(1) pre by (simp add: consistent_def)
        have tr: "track (held (m_networkBuffer s)) (Posted (DidReceiveData (m_networkBuffer s) n)) = []"
          by (cases "m_networkBuffer s") (simp_all add: held_def)
        have rd: "reading ?s2"
          using assms(1) pre na o tr
          by (simp add: reading_def consistent_def tidy_snoc outstanding_snoc posted_simps)
            (simp add: held_def)
        have "settled ?s2 out" by (rule startReading_settled [OF sr rd])
        moreover have "attached ?s2" using l by (simp add: attached_def)
        ultimately show ?thesis by (auto simp add: settled_def split: sum.splits)
      qed
    qed
  qed
qed

lemma invoke_settled:
  assumes "consistent s" "invoke ext c s = Some out"
  shows "settled s out"
proof (cases c)
  case (Call_start p)
  then show ?thesis using assms start_settled by simp
next
  case Call_cancel
  then show ?thesis using assms cancel_settled by auto
next
  case (Call_AppendBytesToUpload d)
  then show ?thesis using assms AppendBytesToUpload_settled by auto
next
  case (Call_setAuth u p)
  then show ?thesis using assms setAuth_settled by auto
next
  case Call_cancelAuth
  then show ?thesis using assms cancelAuth_settled by auto
next
  case (Call_OnReceivedRedirect r u)
  then show ?thesis using assms OnReceivedRedirect_settled by auto
next
  case (Call_OnAuthRequired a)
  then show ?thesis using assms OnAuthRequired_settled by auto
next
  case (Call_OnResponseStarted r)
  then show ?thesis using assms OnResponseStarted_settled by simp
next
  case (Call_OnReadCompleted r n)
  then show ?thesis using assms OnReadCompleted_settled by simp
next
  case Call_destroy
  then show ?thesis using assms destroy_settled by auto
qed

lemma run_settled:
  "consistent s \<Longrightarrow> run ext s cs = Some out \<Longrightarrow> settled s out"
proof (induction cs arbitrary: s)
  case Nil
  then show ?case by (auto simp add: settled_def)
next
  case (Cons c cs)
  from Cons.prems(2) obtain o1 where o1: "invoke ext c s = Some o1"
    by (cases "invoke ext c s") auto
  note st = invoke_settled [OF Cons.prems(1) o1]
  show ?case
  proof (cases o1)
    case (Inl a)
    then have "out = Inl a" using Cons.prems(2) o1 by simp
    then show ?thesis using st Inl by (simp add: settled_def)
  next
    case (Inr s')
    then have r: "run ext s' cs = Some out" using Cons.prems(2) o1 by simp
    have c': "consistent s'" using st Inr by (simp add: settled_def)
    have "settled s' out" by (rule Cons.IH [OF c' r])
    then show ?thesis using st Inr by (auto simp add: settled_def split: sum.splits)
  qed
qed

lemma consistent_new: "consistent (WebRequest_new loader w st rs js)"
  by (simp add: consistent_def WebRequest_new_def posted_def tidy_Nil outstanding_def held_def)

lemma consistent_new_stream: "consistent (WebRequest_new_stream ext loader w i js)"
  by (simp add: consistent_def WebRequest_new_stream_def posted_def tidy_Nil outstanding_def held_def)

lemma finish_ok:
  assumes "m_urlLoader s = Some l" "LoadState_value (m_loadState s) < LoadState_value Finished"
  shows "finish b s = Inr (s\<lparr>m_loadState := Finished,
            effects := effects s @
              [Posted (if b then DidFinishLoading else DidFail (WebResponse_of_request (m_request s)))],
            m_networkBuffer := None, m_request := None, m_urlLoader := None\<rparr>)"
  using assms by (simp add: finish_def maybeCallOnMainThread_def Let_def)

lemma read_ok:
  assumes "m_loadState s = Response \<or> m_loadState s = GotData" "m_networkBuffer s = None"
     "m_request s = Some r"
  shows "read s = Inr (fst (shd (req_reads r)), fst (snd (shd (req_reads r))),
          s\<lparr>m_networkBuffer := Some \<lparr>buf_id = next_buffer s, buf_size = 32768\<rparr>,
            next_buffer := Suc (next_buffer s),
            effects := effects s @ [Allocated \<lparr>buf_id = next_buffer s, buf_size = 32768\<rparr>,
                                    Called (Net_Read \<lparr>buf_id = next_buffer s, buf_size = 32768\<rparr> 32768)],
            m_request := Some (r\<lparr>req_status := snd (snd (shd (req_reads r))),
                                 req_reads := stl (req_reads r)\<rparr>)\<rparr>)"
  using assms by (auto simp add: read_def Let_def kInitialReadBufSize_def)

lemma startReading_loop_step:
  fixes s r l
  defines "b \<equiv> \<lparr>buf_id = next_buffer s, buf_size = 32768\<rparr>"
  defines "s1 \<equiv> s\<lparr>m_networkBuffer := Some b,
            next_buffer := Suc (next_buffer s),
            effects := effects s @ [Allocated b, Called (Net_Read b 32768)],
            m_request := Some (r\<lparr>req_status := snd (snd (shd (req_reads r))),
                                 req_reads := stl (req_reads r)\<rparr>)\<rparr>"
  assumes "m_loadState s = Response \<or> m_loadState s = GotData" "m_networkBuffer s = None"
     "m_request s = Some r" "m_urlLoader s = Some l"
  shows "startReading_loop s =
      (if fst (shd (req_reads r)) then
         if fst (snd (shd (req_reads r))) = 0 then Some (finish True s1)
         else startReading_loop (s1\<lparr>m_loadState := GotData,
                 effects := effects s1 @ [Posted (DidReceiveData (Some b) (fst (snd (shd (req_reads r)))))],
                 m_networkBuffer := None\<rparr>)
       else if is_io_pending (snd (snd (shd (req_reads r)))) then Some (Inr s1)
       else Some (finish False s1))"
  unfolding b_def s1_def
  by (subst startReading_loop.simps)
     (simp add: read_ok [OF assms(3,4,5)] maybeCallOnMainThread_def assms(6))

lemma startReading_loop_returns:
  "m_loadState s = Response \<or> m_loadState s = GotData \<Longrightarrow> m_networkBuffer s = None \<Longrightarrow>
   m_request s = Some r \<Longrightarrow> m_urlLoader s = Some l \<Longrightarrow>
   \<not> (fst (req_reads r !! k) \<and> fst (snd (req_reads r !! k)) \<noteq> 0) \<Longrightarrow>
   startReading_loop s \<noteq> None"
proof (induction k arbitrary: s r)
  case 0
  then show ?case
    by (subst startReading_loop_step [OF "0.prems"(1,2,3,4)]) auto
next
  case (Suc k)
  show ?case
  proof (cases "fst (shd (req_reads r)) \<and> fst (snd (shd (req_reads r))) \<noteq> 0")
    case False
    then show ?thesis
      by (subst startReading_loop_step [OF Suc.prems(1,2,3,4)]) auto
  next
    case True
    let ?b = "\<lparr>buf_id = next_buffer s, buf_size = 32768\<rparr>"
    let ?r' = "r\<lparr>req_status := snd (snd (shd (req_reads r))), req_reads := stl (req_reads r)\<rparr>"
    let ?s1 = "s\<lparr>m_networkBuffer := Some ?b,
            next_buffer := Suc (next_buffer s),
            effects := effects s @ [Allocated ?b, Called (Net_Read ?b 32768)],
            m_request := Some ?r'\<rparr>"
    let ?s2 = "?s1\<lparr>m_loadState := GotData,
                 effects := effects ?s1 @ [Posted (DidReceiveData (Some ?b) (fst (snd (shd (req_reads r)))))],
                 m_networkBuffer := None\<rparr>"
    have st: "startReading_loop s = startReading_loop ?s2"
      using True by (subst startReading_loop_step [OF Suc.prems(1,2,3,4)]) simp
    have p: "m_loadState ?s2 = Response \<or> m_loadState ?s2 = GotData" "m_networkBuffer ?s2 = None"
      "m_request ?s2 = Some ?r'" "m_urlLoader ?s2 = Some l"
      using Suc.prems(4) by simp_all
    have k: "\<not> (fst (req_reads ?r' !! k) \<and> fst (snd (req_reads ?r' !! k)) \<noteq> 0)"
      using Suc.prems(5) by simp
    show ?thesis unfolding st by (rule Suc.IH [OF p k])
  qed
qed

lemma handleAndroidURL_loop_neg:
  "fst (shd (stream_reads s)) < 0 \<Longrightarrow>
   handleAndroidURL_loop s = Some (Inr (s\<lparr>stream_reads := stl (stream_reads s)\<rparr>))"
  by (subst handleAndroidURL_loop.simps) simp

lemma handleAndroidURL_loop_nonneg:
  "0 \<le> fst (shd (stream_reads s)) \<Longrightarrow> m_urlLoader s = Some l \<Longrightarrow>
   handleAndroidURL_loop s = handleAndroidURL_loop (s\<lparr>stream_reads := stl (stream_reads s),
      m_loadState := GotData,
      effects := effects s @ [stream_chunk (shd (stream_reads s))]\<rparr>)"
  by (subst handleAndroidURL_loop.simps) (simp add: maybeCallOnMainThread_def stream_chunk_def)

lemma length_GetByteArrayRegion: "length (GetByteArrayRegion jb n) = n"
  by (simp add: GetByteArrayRegion_def)

lemma handleAndroidURL_loop_run:
  "m_urlLoader s = Some l \<Longrightarrow> \<forall>i<k. 0 \<le> fst (stream_reads s !! i) \<Longrightarrow>
   fst (stream_reads s !! k) < 0 \<Longrightarrow>
   handleAndroidURL_loop s = Some (Inr (s\<lparr>stream_reads := sdrop (Suc k) (stream_reads s),
      m_loadState := (if k = 0 then m_loadState s else GotData),
      effects := effects s @ map stream_chunk (stake k (stream_reads s))\<rparr>))"
proof (induction k arbitrary: s)
  case 0
  then show ?case by (simp add: handleAndroidURL_loop_neg)
next
  case (Suc k)
  let ?s' = "s\<lparr>stream_reads := stl (stream_reads s),
      m_loadState := GotData,
      effects := effects s @ [stream_chunk (shd (stream_reads s))]\<rparr>"
  have h0: "0 \<le> fst (shd (stream_reads s))" using Suc.prems(2) by force
  have st: "handleAndroidURL_loop s = handleAndroidURL_loop ?s'"
    by (rule handleAndroidURL_loop_nonneg [OF h0 Suc.prems(1)])
  have l': "m_urlLoader ?s' = Some l" using Suc.prems(1) by simp
  have p': "\<forall>i<k. 0 \<le> fst (stream_reads ?s' !! i)" using Suc.prems(2) by auto
  have n': "fst (stream_reads ?s' !! k) < 0" using Suc.prems(3) by simp
  show ?case
    unfolding st Suc.IH [OF l' p' n'] by simp
qed

lemma finish_finishes:
  assumes "m_urlLoader s = Some l" "LoadState_value (m_loadState s) < LoadState_value Finished"
  shows "\<exists>s'. finish b s = Inr s' \<and> m_loadState s' = Finished"
  using finish_ok [OF assms, of b] by simp

lemma handleDataURL_finishes:
  assumes "m_urlLoader s = Some l" "LoadState_value (m_loadState s) < LoadState_value Finished"
  shows "\<exists>s'. handleDataURL ext url s = Inr s' \<and> m_loadState s' = Finished"
  using assms
  by (cases "DataURL_Parse ext url")
     (auto simp add: handleDataURL_def maybeCallOnMainThread_def finish_def)

lemma handleAndroidURL_finishes:
  assumes "m_urlLoader s = Some l"
    "m_inputStream s = 0 \<or> (\<exists>k. fst (stream_reads s !! k) < 0)"
  shows "\<exists>s'. handleAndroidURL ext s = Some (Inr s') \<and> m_loadState s' = Finished"
proof (cases "m_inputStream s = 0")
  case True
  then show ?thesis
    using assms(1) by (simp add: handleAndroidURL_def maybeCallOnMainThread_def)
next
  case False
  then have "\<exists>k. fst (stream_reads s !! k) < 0" using assms(2) by simp
  then obtain k where k: "fst (stream_reads s !! k) < 0" "\<forall>i<k. \<not> fst (stream_reads s !! i) < 0"
    using exists_least_iff [of "\<lambda>k. fst (stream_reads s !! k) < 0"] by auto
  let ?s2 = "s\<lparr>m_loadState := Response,
        effects := effects s @ [Posted (DidReceiveResponse
           (WebResponse_fields (m_url s) (android_mimeType ext (m_url s)) 0 [] 200))]\<rparr>"
  let ?s3 = "?s2\<lparr>stream_reads := sdrop (Suc k) (stream_reads ?s2),
      m_loadState := (if k = 0 then m_loadState ?s2 else GotData),
      effects := effects ?s2 @ map stream_chunk (stake k (stream_reads ?s2))\<rparr>"
  have l2: "m_urlLoader ?s2 = Some l" using assms(1) by simp
  have p2: "\<forall>i<k. 0 \<le> fst (stream_reads ?s2 !! i)" using k(2) by (simp add: not_less)
  have n2: "fst (stream_reads ?s2 !! k) < 0" using k(1) by simp
  have lp: "handleAndroidURL_loop ?s2 = Some (Inr ?s3)"
    by (rule handleAndroidURL_loop_run [OF l2 p2 n2])
  have h: "handleAndroidURL ext s = Some (finish True ?s3)"
    using False assms(1) by (simp add: handleAndroidURL_def maybeCallOnMainThread_def lp)
  have l3: "m_urlLoader ?s3 = Some l" using assms(1) by simp
  have p3: "LoadState_value (m_loadState ?s3) < LoadState_value Finished" by simp
  show ?thesis unfolding h using finish_finishes [OF l3 p3, of True] by simp
qed

lemma start_inline_finishes:
  assumes "SchemeIs ext (GURL (wr_url w)) ''data'' \<or> SchemeIs ext (GURL (wr_url w)) ''browser''"
  shows "\<exists>s'. start ext p (WebRequest_new (Some l) w st rs js) = Some (Inr s')
            \<and> m_loadState s' = Finished"
proof -
  let ?s0 = "WebRequest_new (Some l) w st rs js"
  let ?s1 = "?s0\<lparr>m_loadState := Started\<rparr>"
  obtain r where r: "m_request ?s0 = Some r" "req_url r = GURL (wr_url w)"
    by (simp add: WebRequest_new_def)
  have c: "m_loadState ?s0 = Created" "\<not> m_androidUrl ?s0" by (simp_all add: WebRequest_new_def)
  have l: "m_urlLoader ?s1 = Some l" by (simp add: WebRequest_new_def)
  have p: "LoadState_value (m_loadState ?s1) < LoadState_value Finished" by simp
  note h = handleDataURL_finishes [OF l p]
  have "start ext p ?s0 = Some (handleDataURL ext (GURL (wr_url w)) ?s1)
      \<or> start ext p ?s0 =
          Some (handleDataURL ext (GURL (c_str
            (if spec ext (GURL (wr_url w)) = ''browser:incognito''
                  then (case asset_open ext ''webkit/incognito_mode_start_page.html'' of
                          Some content \<Rightarrow> ''data:text/html;charset=utf-8,'' @ content
                        | None \<Rightarrow> ''data:text/html;charset=utf-8,'')
                  else ''data:text/html;charset=utf-8,''))) ?s1)"
    using assms r c by (auto simp add: start_def handleBrowserURL_def Let_def)
  then show ?thesis using h by (metis (no_types, lifting))
qed

lemma start_stream_finishes:
  assumes "NewGlobalRef ext0 i = 0 \<or> (\<exists>k. fst (js !! k) < 0)"
  shows "\<exists>s'. start ext p (WebRequest_new_stream ext0 (Some l) w i js) = Some (Inr s')
            \<and> m_loadState s' = Finished"
proof -
  let ?s0 = "WebRequest_new_stream ext0 (Some l) w i js"
  let ?s1 = "?s0\<lparr>m_loadState := Started\<rparr>"
  have c: "m_loadState ?s0 = Created" "m_androidUrl ?s0" by (simp_all add: WebRequest_new_stream_def)
  have l: "m_urlLoader ?s1 = Some l" by (simp add: WebRequest_new_stream_def)
  have f: "m_inputStream ?s1 = 0 \<or> (\<exists>k. fst (stream_reads ?s1 !! k) < 0)"
    using assms by (simp add: WebRequest_new_stream_def)
  have "start ext p ?s0 = handleAndroidURL ext ?s1"
    using c by (simp add: start_def)
  then show ?thesis using handleAndroidURL_finishes [OF l f, of ext] by simp
qed

lemma finished_cases:
  "LoadState_value Finished \<le> LoadState_value (m_loadState s) \<Longrightarrow>
   m_loadState s = Finished \<or> m_loadState s = Deleted"
  by (cases "m_loadState s") auto

lemma invoke_finished:
  assumes "LoadState_value Finished \<le> LoadState_value (m_loadState s)"
    "invoke ext c s = Some out"
  shows "effects (state_of out) = effects s
       \<and> LoadState_value Finished \<le> LoadState_value (m_loadState (state_of out))"
proof -
  have st: "m_loadState s = Finished \<or> m_loadState s = Deleted"
    by (rule finished_cases [OF assms(1)])
  show ?thesis
  proof (cases c)
    case (Call_start p)
    then show ?thesis using assms(2) st by (auto simp add: start_def state_of_def)
  next
    case Call_cancel
    then show ?thesis using assms(2) st by (auto simp add: cancel_def state_of_def)
  next
    case (Call_AppendBytesToUpload d)
    then show ?thesis using assms(2) st by (auto simp add: AppendBytesToUpload_def state_of_def)
  next
    case (Call_setAuth u p)
    then show ?thesis using assms(2) st by (auto simp add: setAuth_def state_of_def)
  next
    case Call_cancelAuth
    then show ?thesis using assms(2) st by (auto simp add: cancelAuth_def state_of_def)
  next
    case (Call_OnReceivedRedirect r u)
    then show ?thesis using assms(2) st by (auto simp add: OnReceivedRedirect_def state_of_def)
  next
    case (Call_OnAuthRequired a)
    then show ?thesis using assms(2) st by (auto simp add: OnAuthRequired_def state_of_def)
  next
    case (Call_OnResponseStarted r)
    then show ?thesis using assms(2) st by (auto simp add: OnResponseStarted_def state_of_def)
  next
    case (Call_OnReadCompleted r n)
    then show ?thesis using assms(2) st by (auto simp add: OnReadCompleted_def state_of_def)
  next
    case Call_destroy
    then show ?thesis using assms(2) st by (auto simp add: destroy_def state_of_def)
  qed
qed

lemma run_finished:
  "LoadState_value Finished \<le> LoadState_value (m_loadState s) \<Longrightarrow>
   run ext s cs = Some out \<Longrightarrow>
   effects (state_of out) = effects s
     \<and> LoadState_value Finished \<le> LoadState_value (m_loadState (state_of out))"
proof (induction cs arbitrary: s)
  case Nil
  then show ?case by (auto simp add: state_of_def)
next
  case (Cons c cs)
  from Cons.prems(2) obtain o1 where o1: "invoke ext c s = Some o1"
    by (cases "invoke ext c s") auto
  note f = invoke_finished [OF Cons.prems(1) o1]
  show ?case
  proof (cases o1)
    case (Inl a)
    then have "out = o1" using Cons.prems(2) o1 by simp
    then show ?thesis using f by simp
  next
    case (Inr s')
    then have r: "run ext s' cs = Some out" using Cons.prems(2) o1 by simp
    have f': "LoadState_value Finished \<le> LoadState_value (m_loadState s')"
      using f Inr by (simp add: state_of_def)
    show ?thesis using Cons.IH [OF f' r] f Inr by (simp add: state_of_def)
  qed
qed

lemma constructed_consistent:
  "s0 = WebRequest_new loader w st rs js \<or> s0 = WebRequest_new_stream ext0 loader w i js' \<Longrightarrow>
   consistent s0"
  using consistent_new consistent_new_stream by blast

lemma terminals_of_safe:
  assumes "safe s"
  shows "list_all (\<lambda>n. \<not> is_terminal n) (butlast (posted s))
       \<and> length (filter is_terminal (posted s)) \<le> 1"
proof -
  have a: "list_all (\<lambda>n. \<not> is_terminal n) (butlast (posted s))"
    using assms by (simp add: safe_def)
  then have f: "filter is_terminal (butlast (posted s)) = []"
    by (simp add: list_all_iff filter_empty_conv)
  have "length (filter is_terminal (posted s)) \<le> 1"
  proof (cases "posted s = []")
    case True
    then show ?thesis by simp
  next
    case False
    then have "posted s = butlast (posted s) @ [last (posted s)]" by simp
    then have "filter is_terminal (posted s) = filter is_terminal (butlast (posted s) @ [last (posted s)])"
      by simp
    then show ?thesis using f by simp
  qed
  then show ?thesis using a by simp
qed

lemma terminals_of_finished:
  assumes "terminal_last ns"
  shows "length (filter is_terminal ns) = 1"
proof -
  have ne: "ns = butlast ns @ [last ns]" using assms by (simp add: terminal_last_def)
  have f: "filter is_terminal (butlast ns) = []"
    using assms by (simp add: terminal_last_def list_all_iff filter_empty_conv)
  have "filter is_terminal ns = filter is_terminal (butlast ns @ [last ns])"
    using ne by simp
  then show ?thesis using f assms by (simp add: terminal_last_def)
qed


lemma run_attached:
  assumes "s0 = WebRequest_new (Some l) w st rs js \<or> s0 = WebRequest_new_stream ext0 (Some l) w i js'"
    and "run ext s0 cs = Some (Inr s)"
  shows "consistent s \<and> attached s"
proof -
  have c0: "consistent s0" by (rule constructed_consistent [OF assms(1)])
  have a0: "attached s0"
    using assms(1) by (auto simp add: attached_def WebRequest_new_def WebRequest_new_stream_def)
  show ?thesis using run_settled [OF c0 assms(2)] a0 by (simp add: settled_def)
qed

lemma live_of_consistent:
  assumes "consistent s" "attached s"
    "m_loadState s = Started \<or> m_loadState s = Response \<or> m_loadState s = GotData"
  shows "m_request s \<noteq> None \<and> m_urlLoader s \<noteq> None \<and> \<not> m_androidUrl s"
  using assms by (auto simp add: consistent_def attached_def)

lemma finish_Inr:
  assumes "finish b s = Inr s'"
  shows "m_loadState s' = Finished \<and> m_request s' = None \<and> m_networkBuffer s' = None
       \<and> m_urlLoader s' = None"
  using assms
  by (auto simp add: finish_def maybeCallOnMainThread_def Let_def split: if_splits option.splits)

lemma finish_twice: "m_loadState s = Finished \<Longrightarrow> finish b s = Inl (AssertionFailed, s)"
  by (simp add: finish_def)

lemmas example_defs = example_externals_def example_request_def status_ok_def status_pending_def
  status_failed_def example_network_def example_stream_def WebRequest_new_def WebRequest_new_stream_def

lemmas model_defs = start_def handleDataURL_def handleBrowserURL_def handleAndroidURL_def
  maybeCallOnMainThread_def finish_def cancel_def destroy_def OnResponseStarted_def
  OnReadCompleted_def OnReceivedRedirect_def OnAuthRequired_def startReading_def read_def
  kInitialReadBufSize_def Let_def

lemmas fixture_defs = example_defs example_response_def example_started_def example_finished_def
  example_null_stream_failed_def

lemma example_run_finished:
  "run example_externals (example_network ''data:text/plain,hello'' (sconst (False, 0, status_failed)))
     [Call_start False] = Some (Inr example_finished)"
  by (simp add: fixture_defs model_defs)

lemma example_run_started:
  "run example_externals (example_network ''http://a/'' rs) [Call_start False] =
     Some (Inr (example_started rs))"
  by (simp add: fixture_defs model_defs)

lemma example_run_null_stream:
  "run example_externals (example_stream 0 (sconst (- 1, []))) [Call_start False] =
     Some (Inr example_null_stream_failed)"
  by (simp add: fixture_defs model_defs)


lemmas reading_defs = fixture_defs example_reading_def example_after_read_def

lemma startReading_loop_ends:
  "m_loadState s = Response \<or> m_loadState s = GotData \<Longrightarrow> m_networkBuffer s = None \<Longrightarrow>
   m_request s = Some r \<Longrightarrow> m_urlLoader s = Some l \<Longrightarrow>
   \<forall>i<k. fst (req_reads r !! i) \<and> fst (snd (req_reads r !! i)) \<noteq> 0 \<Longrightarrow>
   \<not> (fst (req_reads r !! k) \<and> fst (snd (req_reads r !! k)) \<noteq> 0) \<Longrightarrow>
   \<exists>s'. startReading_loop s = Some (Inr s')
      \<and> (if \<not> fst (req_reads r !! k) \<and> is_io_pending (snd (snd (req_reads r !! k)))
         then m_loadState s' = Response \<or> m_loadState s' = GotData
         else m_loadState s' = Finished)"
proof (induction k arbitrary: s r)
  case 0
  let ?b = "\<lparr>buf_id = next_buffer s, buf_size = 32768\<rparr>"
  let ?s1 = "s\<lparr>m_networkBuffer := Some ?b,
            next_buffer := Suc (next_buffer s),
            effects := effects s @ [Allocated ?b, Called (Net_Read ?b 32768)],
            m_request := Some (r\<lparr>req_status := snd (snd (shd (req_reads r))),
                                 req_reads := stl (req_reads r)\<rparr>)\<rparr>"
  have l1: "m_urlLoader ?s1 = Some l" using "0.prems"(4) by simp
  have p1: "LoadState_value (m_loadState ?s1) < LoadState_value Finished"
    using "0.prems"(1) by auto
  have st: "m_loadState ?s1 = Response \<or> m_loadState ?s1 = GotData" using "0.prems"(1) by simp
  note f = finish_finishes [OF l1 p1]
  show ?case
    using "0.prems"(6) f [of True] f [of False] st
    by (subst startReading_loop_step [OF "0.prems"(1,2,3,4)]) auto
next
  case (Suc k)
  let ?b = "\<lparr>buf_id = next_buffer s, buf_size = 32768\<rparr>"
  let ?r' = "r\<lparr>req_status := snd (snd (shd (req_reads r))), req_reads := stl (req_reads r)\<rparr>"
  let ?s1 = "s\<lparr>m_networkBuffer := Some ?b,
            next_buffer := Suc (next_buffer s),
            effects := effects s @ [Allocated ?b, Called (Net_Read ?b 32768)],
            m_request := Some ?r'\<rparr>"
  let ?s2 = "?s1\<lparr>m_loadState := GotData,
                 effects := effects ?s1 @ [Posted (DidReceiveData (Some ?b) (fst (snd (shd (req_reads r)))))],
                 m_networkBuffer := None\<rparr>"
  have hd: "fst (shd (req_reads r)) \<and> fst (snd (shd (req_reads r))) \<noteq> 0"
    using Suc.prems(5) by force
  have st: "startReading_loop s = startReading_loop ?s2"
    using hd by (subst startReading_loop_step [OF Suc.prems(1,2,3,4)]) simp
  have p: "m_loadState ?s2 = Response \<or> m_loadState ?s2 = GotData" "m_networkBuffer ?s2 = None"
    "m_request ?s2 = Some ?r'" "m_urlLoader ?s2 = Some l"
    using Suc.prems(4) by simp_all
  have a: "\<forall>i<k. fst (req_reads ?r' !! i) \<and> fst (snd (req_reads ?r' !! i)) \<noteq> 0"
    using Suc.prems(5) by auto
  have k: "\<not> (fst (req_reads ?r' !! k) \<and> fst (snd (req_reads ?r' !! k)) \<noteq> 0)"
    using Suc.prems(6) by simp
  show ?case unfolding st using Suc.IH [OF p a k] by simp
qed

lemma finished_one_terminal:
  assumes "consistent s" "m_loadState s = Finished"
  shows "is_terminal (last (posted s)) \<and> length (filter is_terminal (posted s)) = 1"
  using assms terminals_of_finished [of "posted s"]
  by (auto simp add: consistent_def terminal_last_def)

lemma waiting_no_terminal:
  assumes "consistent s" "LoadState_value (m_loadState s) < LoadState_value Finished"
  shows "filter is_terminal (posted s) = []"
  using assms by (auto simp add: consistent_def list_all_iff filter_empty_conv)

lemma one_more_terminal:
  assumes "filter is_terminal ns = []" "is_terminal t"
  shows "length (filter is_terminal (ns @ [t])) = 1"
  using assms by simp

lemma cancel_completes:
  assumes "consistent s" "attached s"
    "m_loadState s = Started \<or> m_loadState s = Response \<or> m_loadState s = GotData"
  shows "\<exists>s'. cancel s = Inr s' \<and> m_loadState s' = Finished
           \<and> posted s' = posted s @ [DidFinishLoading]
           \<and> length (filter is_terminal (posted s')) = 1"
proof -
  note lv = live_of_consistent [OF assms]
  then obtain l where l: "m_urlLoader s = Some l" by auto
  let ?s' = "s\<lparr>m_loadState := Finished,
               effects := effects s @ [Called Net_Cancel, Posted DidFinishLoading],
               m_networkBuffer := None, m_request := None, m_urlLoader := None\<rparr>"
  have c: "cancel s = Inr ?s'"
    using assms(3) lv l by (auto simp add: cancel_def finish_def maybeCallOnMainThread_def)
  have p: "posted ?s' = posted s @ [DidFinishLoading]" by (simp add: posted_simps)
  have w: "filter is_terminal (posted s) = []"
    using assms(3) by (intro waiting_no_terminal [OF assms(1)]) auto
  have "length (filter is_terminal (posted ?s')) = 1"
    unfolding p by (rule one_more_terminal [OF w]) simp
  then show ?thesis using c p by simp
qed

lemma OnResponseStarted_failure_completes:
  assumes "consistent s" "attached s" "m_loadState s = Started"
    "\<not> (case rq of None \<Rightarrow> False | Some r \<Rightarrow> is_success (req_status r))"
  shows "\<exists>s'. OnResponseStarted rq s = Some (Inr s') \<and> m_loadState s' = Finished
           \<and> posted s' = posted s @ [DidFail (WebResponse_of_request (m_request s))]
           \<and> length (filter is_terminal (posted s')) = 1"
proof -
  have "m_loadState s = Started \<or> m_loadState s = Response \<or> m_loadState s = GotData"
    using assms(3) by simp
  note lv = live_of_consistent [OF assms(1,2) this]
  then obtain l where l: "m_urlLoader s = Some l" by auto
  let ?s' = "s\<lparr>m_loadState := Finished,
               effects := effects s @ [Posted (DidFail (WebResponse_of_request (m_request s)))],
               m_networkBuffer := None, m_request := None, m_urlLoader := None\<rparr>"
  have c: "OnResponseStarted rq s = Some (Inr ?s')"
    using assms(3,4) l by (simp add: OnResponseStarted_def finish_def maybeCallOnMainThread_def)
  have p: "posted ?s' = posted s @ [DidFail (WebResponse_of_request (m_request s))]"
    by (simp add: posted_simps)
  have w: "filter is_terminal (posted s) = []"
    using assms(3) by (intro waiting_no_terminal [OF assms(1)]) auto
  have "length (filter is_terminal (posted ?s')) = 1"
    unfolding p by (rule one_more_terminal [OF w]) simp
  then show ?thesis using c p by simp
qed

lemma OnReadCompleted_failure_completes:
  assumes "consistent s" "attached s" "m_loadState s = Response \<or> m_loadState s = GotData"
    "\<not> is_success (req_status q)"
  shows "\<exists>s'. OnReadCompleted (Some q) n s = Some (Inr s') \<and> m_loadState s' = Finished
           \<and> posted s' = posted s @ [DidFail (WebResponse_of_request (m_request s))]
           \<and> length (filter is_terminal (posted s')) = 1"
proof -
  have "m_loadState s = Started \<or> m_loadState s = Response \<or> m_loadState s = GotData"
    using assms(3) by auto
  note lv = live_of_consistent [OF assms(1,2) this]
  then obtain l where l: "m_urlLoader s = Some l" by auto
  let ?s' = "s\<lparr>m_loadState := Finished,
               effects := effects s @ [Posted (DidFail (WebResponse_of_request (m_request s)))],
               m_networkBuffer := None, m_request := None, m_urlLoader := None\<rparr>"
  have c: "OnReadCompleted (Some q) n s = Some (Inr ?s')"
    using assms(3,4) l by (auto simp add: OnReadCompleted_def finish_def maybeCallOnMainThread_def)
  have p: "posted ?s' = posted s @ [DidFail (WebResponse_of_request (m_request s))]"
    by (simp add: posted_simps)
  have w: "filter is_terminal (posted s) = []"
    using assms(3) by (intro waiting_no_terminal [OF assms(1)]) auto
  have "length (filter is_terminal (posted ?s')) = 1"
    unfolding p by (rule one_more_terminal [OF w]) simp
  then show ?thesis using c p by simp
qed

lemma read_loop_outcome:
  assumes "consistent s'"
    "if pend then m_loadState s' = Response \<or> m_loadState s' = GotData
     else m_loadState s' = Finished"
  shows "if pend
         then LoadState_value (m_loadState s') < LoadState_value Finished
            \<and> filter is_terminal (posted s') = []
         else m_loadState s' = Finished \<and> is_terminal (last (posted s'))
            \<and> length (filter is_terminal (posted s')) = 1"
proof (cases pend)
  case True
  then have "LoadState_value (m_loadState s') < LoadState_value Finished"
    using assms(2) by auto
  then show ?thesis using True waiting_no_terminal [OF assms(1)] by simp
next
  case False
  then show ?thesis using assms(2) finished_one_terminal [OF assms(1)] by simp
qed

lemma OnResponseStarted_success_completes:
  assumes "consistent s" "attached s" "m_loadState s = Started"
    "case rq of None \<Rightarrow> False | Some r \<Rightarrow> is_success (req_status r)"
    "m_request s = Some r"
    "\<forall>i<k. fst (req_reads r !! i) \<and> fst (snd (req_reads r !! i)) \<noteq> 0"
    "\<not> (fst (req_reads r !! k) \<and> fst (snd (req_reads r !! k)) \<noteq> 0)"
  shows "\<exists>s'. OnResponseStarted rq s = Some (Inr s')
      \<and> (if \<not> fst (req_reads r !! k) \<and> is_io_pending (snd (snd (req_reads r !! k)))
         then LoadState_value (m_loadState s') < LoadState_value Finished
            \<and> filter is_terminal (posted s') = []
         else m_loadState s' = Finished \<and> is_terminal (last (posted s'))
            \<and> length (filter is_terminal (posted s')) = 1)"
proof -
  have "m_loadState s = Started \<or> m_loadState s = Response \<or> m_loadState s = GotData"
    using assms(3) by simp
  note lv = live_of_consistent [OF assms(1,2) this]
  then obtain l where l: "m_urlLoader s = Some l" by auto
  have nb: "m_networkBuffer s = None" using assms(1,3) by (simp add: consistent_def)
  let ?s2 = "s\<lparr>m_loadState := Response,
               effects := effects s @ [Posted (DidReceiveResponse (WebResponse_of_request rq))]\<rparr>"
  have c: "OnResponseStarted rq s = startReading_loop ?s2"
    using assms(3,4) l by (simp add: OnResponseStarted_def maybeCallOnMainThread_def startReading_def)
  have p: "m_loadState ?s2 = Response \<or> m_loadState ?s2 = GotData" "m_networkBuffer ?s2 = None"
    "m_request ?s2 = Some r" "m_urlLoader ?s2 = Some l"
    using nb assms(5) l by simp_all
  from startReading_loop_ends [OF p assms(6,7)]
  obtain s' where s': "startReading_loop ?s2 = Some (Inr s')"
    "if \<not> fst (req_reads r !! k) \<and> is_io_pending (snd (snd (req_reads r !! k)))
     then m_loadState s' = Response \<or> m_loadState s' = GotData
     else m_loadState s' = Finished"
    by blast
  have "settled s (Inr s')"
    using OnResponseStarted_settled [OF assms(1), of rq "Inr s'"] c s'(1) by simp
  then have cs: "consistent s'" by (simp add: settled_def)
  show ?thesis using c s'(1) read_loop_outcome [OF cs s'(2)] by simp
qed

lemma OnReadCompleted_success_completes:
  assumes "consistent s" "attached s" "m_loadState s = Response \<or> m_loadState s = GotData"
    "is_success (req_status q)"
    "m_request s = Some r"
    "\<forall>i<k. fst (req_reads r !! i) \<and> fst (snd (req_reads r !! i)) \<noteq> 0"
    "\<not> (fst (req_reads r !! k) \<and> fst (snd (req_reads r !! k)) \<noteq> 0)"
  shows "\<exists>s'. OnReadCompleted (Some q) n s = Some (Inr s')
      \<and> (if \<not> fst (req_reads r !! k) \<and> is_io_pending (snd (snd (req_reads r !! k)))
         then LoadState_value (m_loadState s') < LoadState_value Finished
            \<and> filter is_terminal (posted s') = []
         else m_loadState s' = Finished \<and> is_terminal (last (posted s'))
            \<and> length (filter is_terminal (posted s')) = 1)"
proof -
  have "m_loadState s = Started \<or> m_loadState s = Response \<or> m_loadState s = GotData"
    using assms(3) by auto
  note lv = live_of_consistent [OF assms(1,2) this]
  then obtain l where l: "m_urlLoader s = Some l" by auto
  let ?s2 = "s\<lparr>m_loadState := GotData,
               effects := effects s @ [Posted (DidReceiveData (m_networkBuffer s) n)],
               m_networkBuffer := None\<rparr>"
  have c: "OnReadCompleted (Some q) n s = startReading_loop ?s2"
    using assms(3,4) l
    by (auto simp add: OnReadCompleted_def maybeCallOnMainThread_def startReading_def)
  have p: "m_loadState ?s2 = Response \<or> m_loadState ?s2 = GotData" "m_networkBuffer ?s2 = None"
    "m_request ?s2 = Some r" "m_urlLoader ?s2 = Some l"
    using assms(5) l by simp_all
  from startReading_loop_ends [OF p assms(6,7)]
  obtain s' where s': "startReading_loop ?s2 = Some (Inr s')"
    "if \<not> fst (req_reads r !! k) \<and> is_io_pending (snd (snd (req_reads r !! k)))
     then m_loadState s' = Response \<or> m_loadState s' = GotData
     else m_loadState s' = Finished"
    by blast
  have "settled s (Inr s')"
    using OnReadCompleted_settled [OF assms(1), of "Some q" n "Inr s'"] c s'(1) by simp
  then have cs: "consistent s'" by (simp add: settled_def)
  show ?thesis using c s'(1) read_loop_outcome [OF cs s'(2)] by simp
qed

lemma example_run_waiting:
  "run example_externals
     (example_network ''http://a/'' ((False, 0, status_pending) ## sconst (True, 0, status_ok)))
     [Call_start False, Call_OnResponseStarted (Some example_response)] =
   Some (Inr example_waiting)"
  apply (simp add: fixture_defs model_defs example_waiting_def)
  apply (subst startReading_loop.simps)
  apply (simp add: model_defs)
  done

section \<open>The claims\<close>

text \<open>
  Claim C1.  In every execution of a request of either kind (any sequence of calls on the
  freshly constructed object, whether the last call returns or aborts the process), at
  most one terminal notification, \<^verbatim>\<open>didFinishLoading\<close> or \<^verbatim>\<open>didFail\<close>, has been posted, and
  nothing has been posted after it.  When the calls have returned and the request is in
  \<^verbatim>\<open>Finished\<close> (or \<^verbatim>\<open>Deleted\<close>), exactly one has been posted and it is the last
  notification; while the request is before \<^verbatim>\<open>Finished\<close>, none has been posted.

  Every way a request ends posts that one notification.  With a consumer, a network
  request for a \<^verbatim>\<open>data:\<close> or \<^verbatim>\<open>browser:\<close> URL, and a stream request whose handle is null
  or whose stream at some point answers a negative size, reach \<^verbatim>\<open>Finished\<close> within
  \<^verbatim>\<open>start\<close> itself.  For a request sent to the transport, on every state an execution
  reaches: \<^verbatim>\<open>cancel\<close> in \<^verbatim>\<open>Started\<close>, \<^verbatim>\<open>Response\<close> or \<^verbatim>\<open>GotData\<close> returns in \<^verbatim>\<open>Finished\<close>
  with \<^verbatim>\<open>didFinishLoading\<close> added; \<^verbatim>\<open>OnResponseStarted\<close> and \<^verbatim>\<open>OnReadCompleted\<close> with a
  failed status return in \<^verbatim>\<open>Finished\<close> with \<^verbatim>\<open>didFail\<close> added; with a successful status
  they run the read loop, which returns at the transport's first answer that is not
  synchronous data: in \<^verbatim>\<open>Finished\<close> with exactly one terminal notification, the last,
  unless that answer is io-pending, when the request waits before \<^verbatim>\<open>Finished\<close> with
  none posted.
\<close>

theorem C1_terminal_notification:
  assumes "s0 = WebRequest_new loader w st rs js \<or> s0 = WebRequest_new_stream ext0 loader w i js'"
    and "run ext s0 cs = Some out"
  shows "list_all (\<lambda>n. \<not> is_terminal n) (butlast (posted (state_of out)))
       \<and> length (filter is_terminal (posted (state_of out))) \<le> 1
       \<and> (\<forall>s. out = Inr s \<longrightarrow>
            (LoadState_value Finished \<le> LoadState_value (m_loadState s) \<longrightarrow>
               is_terminal (last (posted s)) \<and> length (filter is_terminal (posted s)) = 1)
          \<and> (LoadState_value (m_loadState s) < LoadState_value Finished \<longrightarrow>
               filter is_terminal (posted s) = []))
       \<and> (\<forall>l p. s0 = WebRequest_new (Some l) w st rs js
            \<and> (SchemeIs ext (GURL (wr_url w)) ''data'' \<or> SchemeIs ext (GURL (wr_url w)) ''browser'') \<longrightarrow>
            (\<exists>s. start ext p s0 = Some (Inr s) \<and> m_loadState s = Finished))
       \<and> (\<forall>l p. s0 = WebRequest_new_stream ext0 (Some l) w i js'
            \<and> (NewGlobalRef ext0 i = 0 \<or> (\<exists>k. fst (js' !! k) < 0)) \<longrightarrow>
            (\<exists>s. start ext p s0 = Some (Inr s) \<and> m_loadState s = Finished))
       \<and> (\<forall>s. loader \<noteq> None \<and> out = Inr s \<longrightarrow>
            (m_loadState s = Started \<or> m_loadState s = Response \<or> m_loadState s = GotData \<longrightarrow>
               (\<exists>s'. cancel s = Inr s' \<and> m_loadState s' = Finished
                   \<and> posted s' = posted s @ [DidFinishLoading]
                   \<and> length (filter is_terminal (posted s')) = 1))
          \<and> (\<forall>rq. m_loadState s = Started
                 \<and> \<not> (case rq of None \<Rightarrow> False | Some r \<Rightarrow> is_success (req_status r)) \<longrightarrow>
               (\<exists>s'. OnResponseStarted rq s = Some (Inr s') \<and> m_loadState s' = Finished
                   \<and> posted s' = posted s @ [DidFail (WebResponse_of_request (m_request s))]
                   \<and> length (filter is_terminal (posted s')) = 1))
          \<and> (\<forall>q n. (m_loadState s = Response \<or> m_loadState s = GotData)
                 \<and> \<not> is_success (req_status q) \<longrightarrow>
               (\<exists>s'. OnReadCompleted (Some q) n s = Some (Inr s') \<and> m_loadState s' = Finished
                   \<and> posted s' = posted s @ [DidFail (WebResponse_of_request (m_request s))]
                   \<and> length (filter is_terminal (posted s')) = 1))
          \<and> (\<forall>r k. m_request s = Some r
                 \<and> (\<forall>i<k. fst (req_reads r !! i) \<and> fst (snd (req_reads r !! i)) \<noteq> 0)
                 \<and> \<not> (fst (req_reads r !! k) \<and> fst (snd (req_reads r !! k)) \<noteq> 0) \<longrightarrow>
               (\<forall>rq. m_loadState s = Started
                   \<and> (case rq of None \<Rightarrow> False | Some r \<Rightarrow> is_success (req_status r)) \<longrightarrow>
                  (\<exists>s'. OnResponseStarted rq s = Some (Inr s')
                     \<and> (if \<not> fst (req_reads r !! k) \<and> is_io_pending (snd (snd (req_reads r !! k)))
                        then LoadState_value (m_loadState s') < LoadState_value Finished
                           \<and> filter is_terminal (posted s') = []
                        else m_loadState s' = Finished \<and> is_terminal (last (posted s'))
                           \<and> length (filter is_terminal (posted s')) = 1)))
             \<and> (\<forall>q n. (m_loadState s = Response \<or> m_loadState s = GotData)
                   \<and> is_success (req_status q) \<longrightarrow>
                  (\<exists>s'. OnReadCompleted (Some q) n s = Some (Inr s')
                     \<and> (if \<not> fst (req_reads r !! k) \<and> is_io_pending (snd (snd (req_reads r !! k)))
                        then LoadState_value (m_loadState s') < LoadState_value Finished
                           \<and> filter is_terminal (posted s') = []
                        else m_loadState s' = Finished \<and> is_terminal (last (posted s'))
                           \<and> length (filter is_terminal (posted s')) = 1)))))"
proof -
  have f: "(\<forall>s. loader \<noteq> None \<and> out = Inr s \<longrightarrow>
            (m_loadState s = Started \<or> m_loadState s = Response \<or> m_loadState s = GotData \<longrightarrow>
               (\<exists>s'. cancel s = Inr s' \<and> m_loadState s' = Finished
                   \<and> posted s' = posted s @ [DidFinishLoading]
                   \<and> length (filter is_terminal (posted s')) = 1))
          \<and> (\<forall>rq. m_loadState s = Started
                 \<and> \<not> (case rq of None \<Rightarrow> False | Some r \<Rightarrow> is_success (req_status r)) \<longrightarrow>
               (\<exists>s'. OnResponseStarted rq s = Some (Inr s') \<and> m_loadState s' = Finished
                   \<and> posted s' = posted s @ [DidFail (WebResponse_of_request (m_request s))]
                   \<and> length (filter is_terminal (posted s')) = 1))
          \<and> (\<forall>q n. (m_loadState s = Response \<or> m_loadState s = GotData)
                 \<and> \<not> is_success (req_status q) \<longrightarrow>
               (\<exists>s'. OnReadCompleted (Some q) n s = Some (Inr s') \<and> m_loadState s' = Finished
                   \<and> posted s' = posted s @ [DidFail (WebResponse_of_request (m_request s))]
                   \<and> length (filter is_terminal (posted s')) = 1))
          \<and> (\<forall>r k. m_request s = Some r
                 \<and> (\<forall>i<k. fst (req_reads r !! i) \<and> fst (snd (req_reads r !! i)) \<noteq> 0)
                 \<and> \<not> (fst (req_reads r !! k) \<and> fst (snd (req_reads r !! k)) \<noteq> 0) \<longrightarrow>
               (\<forall>rq. m_loadState s = Started
                   \<and> (case rq of None \<Rightarrow> False | Some r \<Rightarrow> is_success (req_status r)) \<longrightarrow>
                  (\<exists>s'. OnResponseStarted rq s = Some (Inr s')
                     \<and> (if \<not> fst (req_reads r !! k) \<and> is_io_pending (snd (snd (req_reads r !! k)))
                        then LoadState_value (m_loadState s') < LoadState_value Finished
                           \<and> filter is_terminal (posted s') = []
                        else m_loadState s' = Finished \<and> is_terminal (last (posted s'))
                           \<and> length (filter is_terminal (posted s')) = 1)))
             \<and> (\<forall>q n. (m_loadState s = Response \<or> m_loadState s = GotData)
                   \<and> is_success (req_status q) \<longrightarrow>
                  (\<exists>s'. OnReadCompleted (Some q) n s = Some (Inr s')
                     \<and> (if \<not> fst (req_reads r !! k) \<and> is_io_pending (snd (snd (req_reads r !! k)))
                        then LoadState_value (m_loadState s') < LoadState_value Finished
                           \<and> filter is_terminal (posted s') = []
                        else m_loadState s' = Finished \<and> is_terminal (last (posted s'))
                           \<and> length (filter is_terminal (posted s')) = 1)))))"
  proof (intro allI impI)
    fix s assume h: "loader \<noteq> None \<and> out = Inr s"
    have c0: "consistent s0" by (rule constructed_consistent [OF assms(1)])
    have a0: "attached s0"
      using assms(1) h by (auto simp add: attached_def WebRequest_new_def WebRequest_new_stream_def)
    have ca: "consistent s" "attached s"
      using run_settled [OF c0 assms(2)] a0 h by (simp_all add: settled_def)
    show "(m_loadState s = Started \<or> m_loadState s = Response \<or> m_loadState s = GotData \<longrightarrow>
               (\<exists>s'. cancel s = Inr s' \<and> m_loadState s' = Finished
                   \<and> posted s' = posted s @ [DidFinishLoading]
                   \<and> length (filter is_terminal (posted s')) = 1))
          \<and> (\<forall>rq. m_loadState s = Started
                 \<and> \<not> (case rq of None \<Rightarrow> False | Some r \<Rightarrow> is_success (req_status r)) \<longrightarrow>
               (\<exists>s'. OnResponseStarted rq s = Some (Inr s') \<and> m_loadState s' = Finished
                   \<and> posted s' = posted s @ [DidFail (WebResponse_of_request (m_request s))]
                   \<and> length (filter is_terminal (posted s')) = 1))
          \<and> (\<forall>q n. (m_loadState s = Response \<or> m_loadState s = GotData)
                 \<and> \<not> is_success (req_status q) \<longrightarrow>
               (\<exists>s'. OnReadCompleted (Some q) n s = Some (Inr s') \<and> m_loadState s' = Finished
                   \<and> posted s' = posted s @ [DidFail (WebResponse_of_request (m_request s))]
                   \<and> length (filter is_terminal (posted s')) = 1))
          \<and> (\<forall>r k. m_request s = Some r
                 \<and> (\<forall>i<k. fst (req_reads r !! i) \<and> fst (snd (req_reads r !! i)) \<noteq> 0)
                 \<and> \<not> (fst (req_reads r !! k) \<and> fst (snd (req_reads r !! k)) \<noteq> 0) \<longrightarrow>
               (\<forall>rq. m_loadState s = Started
                   \<and> (case rq of None \<Rightarrow> False | Some r \<Rightarrow> is_success (req_status r)) \<longrightarrow>
                  (\<exists>s'. OnResponseStarted rq s = Some (Inr s')
                     \<and> (if \<not> fst (req_reads r !! k) \<and> is_io_pending (snd (snd (req_reads r !! k)))
                        then LoadState_value (m_loadState s') < LoadState_value Finished
                           \<and> filter is_terminal (posted s') = []
                        else m_loadState s' = Finished \<and> is_terminal (last (posted s'))
                           \<and> length (filter is_terminal (posted s')) = 1)))
             \<and> (\<forall>q n. (m_loadState s = Response \<or> m_loadState s = GotData)
                   \<and> is_success (req_status q) \<longrightarrow>
                  (\<exists>s'. OnReadCompleted (Some q) n s = Some (Inr s')
                     \<and> (if \<not> fst (req_reads r !! k) \<and> is_io_pending (snd (snd (req_reads r !! k)))
                        then LoadState_value (m_loadState s') < LoadState_value Finished
                           \<and> filter is_terminal (posted s') = []
                        else m_loadState s' = Finished \<and> is_terminal (last (posted s'))
                           \<and> length (filter is_terminal (posted s')) = 1))))"
      using cancel_completes [OF ca]
        OnResponseStarted_failure_completes [OF ca]
        OnReadCompleted_failure_completes [OF ca]
        OnResponseStarted_success_completes [OF ca]
        OnReadCompleted_success_completes [OF ca]
      by (intro conjI allI impI) blast+
  qed
  have c0: "consistent s0" by (rule constructed_consistent [OF assms(1)])
  note st = run_settled [OF c0 assms(2)]
  have d: "\<forall>l p. s0 = WebRequest_new (Some l) w st rs js
            \<and> (SchemeIs ext (GURL (wr_url w)) ''data'' \<or> SchemeIs ext (GURL (wr_url w)) ''browser'') \<longrightarrow>
            (\<exists>s. start ext p s0 = Some (Inr s) \<and> m_loadState s = Finished)"
    using start_inline_finishes by blast
  have e: "\<forall>l p. s0 = WebRequest_new_stream ext0 (Some l) w i js'
            \<and> (NewGlobalRef ext0 i = 0 \<or> (\<exists>k. fst (js' !! k) < 0)) \<longrightarrow>
            (\<exists>s. start ext p s0 = Some (Inr s) \<and> m_loadState s = Finished)"
    using start_stream_finishes by blast
  have sf: "safe (state_of out)"
    using st by (cases out) (auto simp add: settled_def state_of_def safe_of_consistent)
  have r: "\<forall>s. out = Inr s \<longrightarrow>
            (LoadState_value Finished \<le> LoadState_value (m_loadState s) \<longrightarrow>
               is_terminal (last (posted s)) \<and> length (filter is_terminal (posted s)) = 1)
          \<and> (LoadState_value (m_loadState s) < LoadState_value Finished \<longrightarrow>
               filter is_terminal (posted s) = [])"
  proof (intro allI impI)
    fix s assume "out = Inr s"
    then have c: "consistent s" using st by (simp add: settled_def)
    have a: "LoadState_value Finished \<le> LoadState_value (m_loadState s) \<longrightarrow>
               is_terminal (last (posted s)) \<and> length (filter is_terminal (posted s)) = 1"
      using c terminals_of_finished [of "posted s"]
      by (auto simp add: consistent_def terminal_last_def split: if_splits)
    have b: "LoadState_value (m_loadState s) < LoadState_value Finished \<longrightarrow>
               filter is_terminal (posted s) = []"
      using c by (auto simp add: consistent_def list_all_iff filter_empty_conv split: if_splits)
    show "(LoadState_value Finished \<le> LoadState_value (m_loadState s) \<longrightarrow>
               is_terminal (last (posted s)) \<and> length (filter is_terminal (posted s)) = 1)
          \<and> (LoadState_value (m_loadState s) < LoadState_value Finished \<longrightarrow>
               filter is_terminal (posted s) = [])"
      using a b by simp
  qed
  show ?thesis using terminals_of_safe [OF sf] r d e f by blast
qed

theorem C1_witness:
  "run example_externals (example_network ''data:text/plain,hello'' (sconst (False, 0, status_failed)))
     [Call_start False] = Some (Inr example_finished)
   \<and> m_loadState example_finished = Finished
   \<and> is_terminal (last (posted example_finished))
   \<and> length (filter is_terminal (posted example_finished)) = 1
   \<and> run example_externals (example_network ''http://a/'' (sconst (False, 0, status_pending)))
     [Call_start False] = Some (Inr (example_started (sconst (False, 0, status_pending))))
   \<and> filter is_terminal (posted (example_started (sconst (False, 0, status_pending)))) = []
   \<and> SchemeIs example_externals (GURL (wr_url (example_request ''data:text/plain,hello''))) ''data''
   \<and> start example_externals False
         (example_network ''data:text/plain,hello'' (sconst (False, 0, status_failed))) \<noteq> None
   \<and> NewGlobalRef example_externals 0 = 0
   \<and> start example_externals False (example_stream 0 (sconst (- 1, []))) \<noteq> None
   \<and> m_loadState (state_of (cancel (example_started (sconst (False, 0, status_pending))))) = Finished
   \<and> length (filter is_terminal
        (posted (state_of (cancel (example_started (sconst (False, 0, status_pending))))))) = 1
   \<and> m_loadState (state_of (the (OnResponseStarted None
        (example_started (sconst (False, 0, status_pending)))))) = Finished
   \<and> length (filter is_terminal (posted (state_of (the (OnResponseStarted None
        (example_started (sconst (False, 0, status_pending)))))))) = 1
   \<and> filter is_terminal (posted (state_of (the (OnResponseStarted (Some example_response)
        (example_started (sconst (False, 0, status_pending))))))) = []
   \<and> run example_externals
        (example_network ''http://a/'' ((False, 0, status_pending) ## sconst (True, 0, status_ok)))
        [Call_start False, Call_OnResponseStarted (Some example_response)] =
      Some (Inr example_waiting)
   \<and> m_loadState (state_of (the (OnReadCompleted (Some example_response) 7 example_waiting)))
       = Finished
   \<and> length (filter is_terminal
        (posted (state_of (the (OnReadCompleted (Some example_response) 7 example_waiting))))) = 1
   \<and> m_loadState (state_of (the (OnReadCompleted
        (Some (example_response \<lparr>req_status := status_failed\<rparr>)) (- 1) example_waiting)))
       = Finished
   \<and> length (filter is_terminal (posted (state_of (the (OnReadCompleted
        (Some (example_response \<lparr>req_status := status_failed\<rparr>)) (- 1) example_waiting))))) = 1"
proof -
  let ?S = "example_started (sconst (False, 0, status_pending))"
  note t1 = C1_terminal_notification [OF disjI1 example_run_finished, OF example_network_def]
  note t2 = C1_terminal_notification
    [OF disjI1 example_run_started [of "sconst (False, 0, status_pending)"], OF example_network_def]
  note t3 = C1_terminal_notification [OF disjI2 example_run_null_stream, OF example_stream_def]
  note t4 = C1_terminal_notification [OF disjI1 example_run_waiting, OF example_network_def]
  have f: "m_loadState example_finished = Finished" by (simp add: fixture_defs)
  have s: "m_loadState ?S = Started" by (simp add: fixture_defs)
  have d: "SchemeIs example_externals (GURL (wr_url (example_request ''data:text/plain,hello''))) ''data''"
    by (simp add: example_defs)
  have g: "NewGlobalRef example_externals 0 = 0" by (simp add: example_defs)
  have a: "start example_externals False
         (example_network ''data:text/plain,hello'' (sconst (False, 0, status_failed))) \<noteq> None"
    using t1 [THEN conjunct2, THEN conjunct2, THEN conjunct2, THEN conjunct1, rule_format,
              of 1 False] d
    by (auto simp add: example_network_def)
  have b: "start example_externals False (example_stream 0 (sconst (- 1, []))) \<noteq> None"
    using t3 [THEN conjunct2, THEN conjunct2, THEN conjunct2, THEN conjunct2, THEN conjunct1,
              rule_format, of 1 False] g
    by (auto simp add: example_stream_def)
  have c1: "is_terminal (last (posted example_finished))
     \<and> length (filter is_terminal (posted example_finished)) = 1"
    using t1 [THEN conjunct2, THEN conjunct2, THEN conjunct1, rule_format, OF refl] f
    by simp
  have c2: "filter is_terminal (posted ?S) = []"
    using t2 [THEN conjunct2, THEN conjunct2, THEN conjunct1, rule_format, OF refl] s
    by simp
  have ne: "Some (1::nat) \<noteq> None" by simp
  note u2 = t2 [THEN conjunct2, THEN conjunct2, THEN conjunct2, THEN conjunct2, THEN conjunct2,
                rule_format, OF conjI [OF ne refl]]
  note u4 = t4 [THEN conjunct2, THEN conjunct2, THEN conjunct2, THEN conjunct2, THEN conjunct2,
                rule_format, OF conjI [OF ne refl]]
  have e1: "m_loadState (state_of (cancel ?S)) = Finished
     \<and> length (filter is_terminal (posted (state_of (cancel ?S)))) = 1"
    using u2 [THEN conjunct1] s by (auto simp add: state_of_def)
  have e2: "m_loadState (state_of (the (OnResponseStarted None ?S))) = Finished
     \<and> length (filter is_terminal (posted (state_of (the (OnResponseStarted None ?S))))) = 1"
    using u2 [THEN conjunct2, THEN conjunct1, rule_format, of None] s
    by (auto simp add: state_of_def)
  have rS: "m_request ?S = Some (example_response \<lparr>req_reads := sconst (False, 0, status_pending)\<rparr>)"
    by (simp add: fixture_defs)
  have ok: "is_success (req_status example_response)" by (simp add: fixture_defs)
  have e3: "filter is_terminal (posted (state_of (the (OnResponseStarted (Some example_response) ?S)))) = []"
    using u2 [THEN conjunct2, THEN conjunct2, THEN conjunct2, rule_format,
              of "example_response \<lparr>req_reads := sconst (False, 0, status_pending)\<rparr>" 0,
              THEN conjunct1, rule_format, of "Some example_response"] rS s ok
    by (auto simp add: state_of_def status_pending_def)
  have w: "m_loadState example_waiting = Response"
    "m_request example_waiting = Some (example_response \<lparr> req_status := status_pending,
                                                 req_reads := sconst (True, 0, status_ok) \<rparr>)"
    by (simp_all add: example_waiting_def)
  have e4: "m_loadState (state_of (the (OnReadCompleted (Some example_response) 7 example_waiting)))
       = Finished
     \<and> length (filter is_terminal
        (posted (state_of (the (OnReadCompleted (Some example_response) 7 example_waiting))))) = 1"
    using u4 [THEN conjunct2, THEN conjunct2, THEN conjunct2, rule_format,
              of "example_response \<lparr> req_status := status_pending,
                                      req_reads := sconst (True, 0, status_ok) \<rparr>" 0,
              THEN conjunct2, rule_format, of example_response 7] w ok
    by (auto simp add: state_of_def)
  have nok: "\<not> is_success (req_status (example_response \<lparr>req_status := status_failed\<rparr>))"
    by (simp add: fixture_defs)
  have e5: "m_loadState (state_of (the (OnReadCompleted
        (Some (example_response \<lparr>req_status := status_failed\<rparr>)) (- 1) example_waiting)))
       = Finished
     \<and> length (filter is_terminal (posted (state_of (the (OnReadCompleted
        (Some (example_response \<lparr>req_status := status_failed\<rparr>)) (- 1) example_waiting))))) = 1"
    using u4 [THEN conjunct2, THEN conjunct2, THEN conjunct1, rule_format,
              of "example_response \<lparr>req_status := status_failed\<rparr>" "- 1"] w nok
    by (auto simp add: state_of_def)
  show ?thesis
    using example_run_finished example_run_started example_run_waiting f d g a b c1 c2
      e1 e2 e3 e4 e5
    by simp
qed



text \<open>
  Claim C3.  On every state that an execution of a request with a consumer reaches:
  \<^verbatim>\<open>cancel\<close> past \<^verbatim>\<open>Cancelled\<close> returns with the state unchanged; in \<^verbatim>\<open>Started\<close>,
  \<^verbatim>\<open>Response\<close> or \<^verbatim>\<open>GotData\<close> it sets \<^verbatim>\<open>Cancelled\<close>, calls the transport's \<^verbatim>\<open>Cancel\<close> and
  runs \<^verbatim>\<open>finish(true)\<close>, which posts \<^verbatim>\<open>didFinishLoading\<close> and leaves the request
  \<^verbatim>\<open>Finished\<close>; in \<^verbatim>\<open>Created\<close> it fails its assertion; \<^verbatim>\<open>Cancelled\<close> itself is never
  observed between calls.  A second \<^verbatim>\<open>cancel\<close> after one that returned changes nothing,
  and whatever calls follow a \<^verbatim>\<open>cancel\<close>, at most one terminal notification is ever posted.
\<close>

theorem C3_cancel:
  assumes "s0 = WebRequest_new (Some l) w st rs js \<or> s0 = WebRequest_new_stream ext0 (Some l) w i js'"
    and "run ext s0 cs = Some (Inr s)"
  shows "(LoadState_value Cancelled < LoadState_value (m_loadState s) \<longrightarrow> cancel s = Inr s)
       \<and> (m_loadState s = Started \<or> m_loadState s = Response \<or> m_loadState s = GotData \<longrightarrow>
            cancel s = finish True (s\<lparr>m_loadState := Cancelled,
                                      effects := effects s @ [Called Net_Cancel]\<rparr>)
          \<and> cancel s = Inr (s\<lparr>m_loadState := Finished,
                                effects := effects s @ [Called Net_Cancel, Posted DidFinishLoading],
                                m_networkBuffer := None, m_request := None, m_urlLoader := None\<rparr>))
       \<and> (m_loadState s = Created \<longrightarrow> cancel s = Inl (AssertionFailed, s))
       \<and> m_loadState s \<noteq> Cancelled
       \<and> (\<forall>s'. cancel s = Inr s' \<longrightarrow> cancel s' = Inr s')
       \<and> (\<forall>cs' out. run ext s (Call_cancel # cs') = Some out \<longrightarrow>
            length (filter is_terminal (posted (state_of out))) \<le> 1)"
proof -
  note ca = run_attached [OF assms]
  have a: "LoadState_value Cancelled < LoadState_value (m_loadState s) \<longrightarrow> cancel s = Inr s"
    by (cases "m_loadState s") (auto simp add: cancel_def)
  have b: "m_loadState s = Started \<or> m_loadState s = Response \<or> m_loadState s = GotData \<longrightarrow>
            cancel s = finish True (s\<lparr>m_loadState := Cancelled,
                                      effects := effects s @ [Called Net_Cancel]\<rparr>)
          \<and> cancel s = Inr (s\<lparr>m_loadState := Finished,
                                effects := effects s @ [Called Net_Cancel, Posted DidFinishLoading],
                                m_networkBuffer := None, m_request := None, m_urlLoader := None\<rparr>)"
  proof
    assume h: "m_loadState s = Started \<or> m_loadState s = Response \<or> m_loadState s = GotData"
    note lv = live_of_consistent [OF ca [THEN conjunct1] ca [THEN conjunct2] h]
    then obtain l' where l': "m_urlLoader s = Some l'" by auto
    show "cancel s = finish True (s\<lparr>m_loadState := Cancelled,
                                      effects := effects s @ [Called Net_Cancel]\<rparr>)
          \<and> cancel s = Inr (s\<lparr>m_loadState := Finished,
                                effects := effects s @ [Called Net_Cancel, Posted DidFinishLoading],
                                m_networkBuffer := None, m_request := None, m_urlLoader := None\<rparr>)"
      using h lv l' by (auto simp add: cancel_def finish_def maybeCallOnMainThread_def)
  qed
  have c: "m_loadState s = Created \<longrightarrow> cancel s = Inl (AssertionFailed, s)"
    by (simp add: cancel_def)
  have d: "m_loadState s \<noteq> Cancelled"
    using ca by (auto simp add: consistent_def split: if_splits)
  have e: "\<forall>s'. cancel s = Inr s' \<longrightarrow> cancel s' = Inr s'"
  proof (intro allI impI)
    fix s' assume r: "cancel s = Inr s'"
    have "m_loadState s' = Finished \<or> m_loadState s' = Deleted"
      using r finish_Inr [of True _ s']
      by (cases "m_loadState s") (auto simp add: cancel_def split: if_splits)
    then show "cancel s' = Inr s'" by (auto simp add: cancel_def)
  qed
  have f: "\<forall>cs' out. run ext s (Call_cancel # cs') = Some out \<longrightarrow>
            length (filter is_terminal (posted (state_of out))) \<le> 1"
  proof (intro allI impI)
    fix cs' out assume r: "run ext s (Call_cancel # cs') = Some out"
    note st = run_settled [OF ca [THEN conjunct1] r]
    have "safe (state_of out)"
      using st by (cases out) (auto simp add: settled_def state_of_def safe_of_consistent)
    then show "length (filter is_terminal (posted (state_of out))) \<le> 1"
      using terminals_of_safe by blast
  qed
  show ?thesis using a b c d e f by blast
qed

theorem C3_witness:
  "run example_externals (example_network ''http://a/'' (sconst (False, 0, status_pending)))
     [Call_start False] = Some (Inr (example_started (sconst (False, 0, status_pending))))
   \<and> cancel (example_started (sconst (False, 0, status_pending))) =
       Inr ((example_started (sconst (False, 0, status_pending)))
              \<lparr>m_loadState := Finished,
               effects := [Called Net_Start, Called Net_Cancel, Posted DidFinishLoading],
               m_networkBuffer := None, m_request := None, m_urlLoader := None\<rparr>)
   \<and> run example_externals (example_network ''data:text/plain,hello'' (sconst (False, 0, status_failed)))
     [Call_start False] = Some (Inr example_finished)
   \<and> cancel example_finished = Inr example_finished"
proof -
  note t1 = C3_cancel [OF disjI1 example_run_started, OF example_network_def]
  note t2 = C3_cancel [OF disjI1 example_run_finished, OF example_network_def]
  have s: "m_loadState (example_started (sconst (False, 0, status_pending))) = Started"
    "effects (example_started (sconst (False, 0, status_pending))) = [Called Net_Start]"
    by (simp_all add: fixture_defs)
  have a: "cancel (example_started (sconst (False, 0, status_pending))) =
       Inr ((example_started (sconst (False, 0, status_pending)))
              \<lparr>m_loadState := Finished,
               effects := [Called Net_Start, Called Net_Cancel, Posted DidFinishLoading],
               m_networkBuffer := None, m_request := None, m_urlLoader := None\<rparr>)"
    using t1 [THEN conjunct2, THEN conjunct1, rule_format, THEN conjunct2] s by simp
  have f: "LoadState_value Cancelled < LoadState_value (m_loadState example_finished)"
    by (simp add: fixture_defs)
  have b: "cancel example_finished = Inr example_finished"
    by (rule t2 [THEN conjunct1, rule_format, OF f])
  show ?thesis using example_run_finished example_run_started a b by simp
qed

text \<open>
  Claim C4.  One turn of the read loop, entered in \<^verbatim>\<open>Response\<close> or \<^verbatim>\<open>GotData\<close> with no
  buffer held: \<^verbatim>\<open>read\<close> allocates a fresh buffer of 32768 bytes and issues one \<^verbatim>\<open>Read\<close>
  with it.  If the transport answers at once with a number of bytes other than zero
  (in particular \<open>n > 0\<close>), the state becomes \<^verbatim>\<open>GotData\<close>, \<^verbatim>\<open>didReceiveData\<close> is posted with
  that buffer, the reference is cleared and the loop goes on to the next read; with
  zero bytes the loop ends in \<^verbatim>\<open>finish(true)\<close>; if the transport reports io-pending the
  loop stops, the buffer kept for \<^verbatim>\<open>OnReadCompleted\<close>; on any other failure it ends in
  \<^verbatim>\<open>finish(false)\<close>.  The loop returns as soon as one answer of the transport is not of
  the first kind.
\<close>

theorem C4_read_loop:
  fixes s r l ok n st
  defines "b \<equiv> \<lparr>buf_id = next_buffer s, buf_size = 32768\<rparr>"
  defines "s1 \<equiv> s\<lparr>m_networkBuffer := Some b,
            next_buffer := Suc (next_buffer s),
            effects := effects s @ [Allocated b, Called (Net_Read b 32768)],
            m_request := Some (r\<lparr>req_status := st, req_reads := stl (req_reads r)\<rparr>)\<rparr>"
  assumes "m_loadState s = Response \<or> m_loadState s = GotData" "m_networkBuffer s = None"
     "m_request s = Some r" "m_urlLoader s = Some l" "shd (req_reads r) = (ok, n, st)"
  shows "startReading s = startReading_loop s
   \<and> read s = Inr (ok, n, s1)
   \<and> (ok \<and> n \<noteq> 0 \<longrightarrow> startReading_loop s = startReading_loop
         (s1\<lparr>m_loadState := GotData,
             effects := effects s1 @ [Posted (DidReceiveData (Some b) n)],
             m_networkBuffer := None\<rparr>))
   \<and> (ok \<and> n = 0 \<longrightarrow> startReading_loop s = Some (finish True s1)
         \<and> finish True s1 = Inr (s1\<lparr>m_loadState := Finished,
               effects := effects s1 @ [Posted DidFinishLoading],
               m_networkBuffer := None, m_request := None, m_urlLoader := None\<rparr>))
   \<and> (\<not> ok \<and> is_io_pending st \<longrightarrow> startReading_loop s = Some (Inr s1))
   \<and> (\<not> ok \<and> \<not> is_io_pending st \<longrightarrow> startReading_loop s = Some (finish False s1)
         \<and> finish False s1 = Inr (s1\<lparr>m_loadState := Finished,
               effects := effects s1 @ [Posted (DidFail (WebResponse_of_request (m_request s1)))],
               m_networkBuffer := None, m_request := None, m_urlLoader := None\<rparr>))
   \<and> (\<not> (fst (req_reads r !! k) \<and> fst (snd (req_reads r !! k)) \<noteq> 0) \<longrightarrow>
         startReading_loop s \<noteq> None)"
proof -
  have rd: "read s = Inr (ok, n, s1)"
    using read_ok [OF assms(3,4,5)] assms(7) by (simp add: b_def s1_def)
  have pre: "LoadState_value (m_loadState s1) < LoadState_value Finished"
    using assms(3) by (auto simp add: s1_def)
  have ld: "m_urlLoader s1 = Some l" using assms(6) by (simp add: s1_def)
  have nb: "m_networkBuffer s1 = Some b" by (simp add: s1_def)
  have rq: "m_request s1 = Some (r\<lparr>req_status := st, req_reads := stl (req_reads r)\<rparr>)"
    by (simp add: s1_def)
  have unf: "startReading_loop s =
      (if ok then
         if n = 0 then Some (finish True s1)
         else startReading_loop (s1\<lparr>m_loadState := GotData,
                 effects := effects s1 @ [Posted (DidReceiveData (Some b) n)],
                 m_networkBuffer := None\<rparr>)
       else if is_io_pending st then Some (Inr s1) else Some (finish False s1))"
    by (subst startReading_loop.simps) (simp add: rd maybeCallOnMainThread_def ld nb rq)
  have c1: "ok \<and> n \<noteq> 0 \<longrightarrow> startReading_loop s = startReading_loop
         (s1\<lparr>m_loadState := GotData,
             effects := effects s1 @ [Posted (DidReceiveData (Some b) n)],
             m_networkBuffer := None\<rparr>)"
    using unf by simp
  have c2: "ok \<and> n = 0 \<longrightarrow> startReading_loop s = Some (finish True s1)"
    using unf by simp
  have c3: "\<not> ok \<and> is_io_pending st \<longrightarrow> startReading_loop s = Some (Inr s1)"
    using unf by simp
  have c4: "\<not> ok \<and> \<not> is_io_pending st \<longrightarrow> startReading_loop s = Some (finish False s1)"
    using unf by simp
  have sr: "startReading s = startReading_loop s"
    using assms(3) by (auto simp add: startReading_def)
  have tm: "\<not> (fst (req_reads r !! k) \<and> fst (snd (req_reads r !! k)) \<noteq> 0) \<longrightarrow>
         startReading_loop s \<noteq> None"
    using startReading_loop_returns [OF assms(3,4,5,6)] by blast
  show ?thesis
    using rd c1 c2 c3 c4 sr tm finish_ok [OF ld pre] by simp
qed

theorem C4_witness:
  "startReading_loop (example_reading ((True, 5, status_ok) ## sconst (False, 0, status_pending))) =
     startReading_loop
       ((example_after_read ((True, 5, status_ok) ## sconst (False, 0, status_pending)) status_ok
           (sconst (False, 0, status_pending)))
          \<lparr>m_loadState := GotData,
           effects := effects (example_after_read ((True, 5, status_ok) ## sconst (False, 0, status_pending))
                        status_ok (sconst (False, 0, status_pending)))
                      @ [Posted (DidReceiveData (Some \<lparr>buf_id = 0, buf_size = 32768\<rparr>) 5)],
           m_networkBuffer := None\<rparr>)
   \<and> startReading_loop (example_reading (sconst (True, 0, status_ok))) =
       Some (Inr ((example_after_read (sconst (True, 0, status_ok)) status_ok (sconst (True, 0, status_ok)))
          \<lparr>m_loadState := Finished,
           effects := effects (example_after_read (sconst (True, 0, status_ok)) status_ok
                        (sconst (True, 0, status_ok))) @ [Posted DidFinishLoading],
           m_networkBuffer := None, m_request := None, m_urlLoader := None\<rparr>))
   \<and> startReading_loop (example_reading (sconst (False, 0, status_pending))) =
       Some (Inr (example_after_read (sconst (False, 0, status_pending)) status_pending
                    (sconst (False, 0, status_pending))))
   \<and> startReading_loop (example_reading (sconst (False, 0, status_failed))) =
       Some (Inr ((example_after_read (sconst (False, 0, status_failed)) status_failed
                     (sconst (False, 0, status_failed)))
          \<lparr>m_loadState := Finished,
           effects := effects (example_after_read (sconst (False, 0, status_failed)) status_failed
                        (sconst (False, 0, status_failed)))
                      @ [Posted (DidFail (WebResponse_of_request
                           (Some (example_response \<lparr>req_status := status_failed,
                                                     req_reads := sconst (False, 0, status_failed)\<rparr>))))],
           m_networkBuffer := None, m_request := None, m_urlLoader := None\<rparr>))
   \<and> startReading_loop (example_reading ((True, 5, status_ok) ## sconst (False, 0, status_pending)))
       \<noteq> None"
proof -
  have h: "\<And>rs. m_loadState (example_reading rs) = Response \<or> m_loadState (example_reading rs) = GotData"
    "\<And>rs. m_networkBuffer (example_reading rs) = None"
    "\<And>rs. m_request (example_reading rs) = Some (example_response \<lparr> req_reads := rs \<rparr>)"
    "\<And>rs. m_urlLoader (example_reading rs) = Some 1"
    by (simp_all add: reading_defs)
  have r: "\<And>x rs. shd (req_reads (example_response \<lparr> req_reads := x ## rs \<rparr>)) = (fst x, fst (snd x), snd (snd x))"
    by simp
  have sc: "\<And>x. sconst x = x ## sconst x" by (rule stream.expand) simp
  note t = C4_read_loop [OF h(1) h(2) h(3) h(4)]
  have a: "startReading_loop (example_reading ((True, 5, status_ok) ## sconst (False, 0, status_pending))) =
     startReading_loop
       ((example_after_read ((True, 5, status_ok) ## sconst (False, 0, status_pending)) status_ok
           (sconst (False, 0, status_pending)))
          \<lparr>m_loadState := GotData,
           effects := effects (example_after_read ((True, 5, status_ok) ## sconst (False, 0, status_pending))
                        status_ok (sconst (False, 0, status_pending)))
                      @ [Posted (DidReceiveData (Some \<lparr>buf_id = 0, buf_size = 32768\<rparr>) 5)],
           m_networkBuffer := None\<rparr>)"
    using t [of "(True, 5, status_ok) ## sconst (False, 0, status_pending)" True 5 status_ok]
    by (simp add: reading_defs)
  have b: "startReading_loop (example_reading (sconst (True, 0, status_ok))) =
       Some (Inr ((example_after_read (sconst (True, 0, status_ok)) status_ok (sconst (True, 0, status_ok)))
          \<lparr>m_loadState := Finished,
           effects := effects (example_after_read (sconst (True, 0, status_ok)) status_ok
                        (sconst (True, 0, status_ok))) @ [Posted DidFinishLoading],
           m_networkBuffer := None, m_request := None, m_urlLoader := None\<rparr>))"
    using t [of "sconst (True, 0, status_ok)" True 0 status_ok]
    by (simp add: reading_defs)
  have c: "startReading_loop (example_reading (sconst (False, 0, status_pending))) =
       Some (Inr (example_after_read (sconst (False, 0, status_pending)) status_pending
                    (sconst (False, 0, status_pending))))"
    using t [of "sconst (False, 0, status_pending)" False 0 status_pending]
    by (simp add: reading_defs)
  have d: "startReading_loop (example_reading (sconst (False, 0, status_failed))) =
       Some (Inr ((example_after_read (sconst (False, 0, status_failed)) status_failed
                     (sconst (False, 0, status_failed)))
          \<lparr>m_loadState := Finished,
           effects := effects (example_after_read (sconst (False, 0, status_failed)) status_failed
                        (sconst (False, 0, status_failed)))
                      @ [Posted (DidFail (WebResponse_of_request
                           (Some (example_response \<lparr>req_status := status_failed,
                                                     req_reads := sconst (False, 0, status_failed)\<rparr>))))],
           m_networkBuffer := None, m_request := None, m_urlLoader := None\<rparr>))"
    using t [of "sconst (False, 0, status_failed)" False 0 status_failed]
    by (simp add: reading_defs)
  have e: "startReading_loop (example_reading ((True, 5, status_ok) ## sconst (False, 0, status_pending)))
       \<noteq> None"
    using t [of "(True, 5, status_ok) ## sconst (False, 0, status_pending)" True 5 status_ok 1,
             THEN conjunct2, THEN conjunct2, THEN conjunct2, THEN conjunct2, THEN conjunct2,
             THEN conjunct2]
    by simp
  show ?thesis using a b c d e by simp
qed

text \<open>
  Claim C5.  On every state that an execution of a request with a consumer reaches:
  \<^verbatim>\<open>OnResponseStarted\<close> outside \<^verbatim>\<open>Started\<close> fails its assertion; in \<^verbatim>\<open>Started\<close>, on
  transport success, it sets \<^verbatim>\<open>Response\<close>, posts \<^verbatim>\<open>didReceiveResponse\<close> and enters the
  read loop; on transport failure it runs \<^verbatim>\<open>finish(false)\<close> on the state set to
  \<^verbatim>\<open>Response\<close>, with no read issued.  In that case only \<^verbatim>\<open>willSendRequest\<close> and
  \<^verbatim>\<open>authRequired\<close> had been posted before, and whatever calls follow, the notifications
  other than those two are exactly one \<^verbatim>\<open>didFail\<close>: no \<^verbatim>\<open>didReceiveResponse\<close>, no
  \<^verbatim>\<open>didReceiveData\<close>.
\<close>

theorem C5_response_started:
  fixes s rq
  defines "sF \<equiv> s\<lparr>m_loadState := Finished,
                   effects := effects s @ [Posted (DidFail (WebResponse_of_request (m_request s)))],
                   m_networkBuffer := None, m_request := None, m_urlLoader := None\<rparr>"
  assumes "s0 = WebRequest_new (Some l) w st rs js \<or> s0 = WebRequest_new_stream ext0 (Some l) w i js'"
    and "run ext s0 cs = Some (Inr s)"
  shows "(m_loadState s \<noteq> Started \<longrightarrow> OnResponseStarted rq s = Some (Inl (AssertionFailed, s)))
       \<and> (m_loadState s = Started
            \<and> (case rq of None \<Rightarrow> False | Some r \<Rightarrow> is_success (req_status r)) \<longrightarrow>
            OnResponseStarted rq s =
              startReading_loop (s\<lparr>m_loadState := Response,
                effects := effects s @ [Posted (DidReceiveResponse (WebResponse_of_request rq))]\<rparr>))
       \<and> (m_loadState s = Started
            \<and> \<not> (case rq of None \<Rightarrow> False | Some r \<Rightarrow> is_success (req_status r)) \<longrightarrow>
            OnResponseStarted rq s = Some (finish False (s\<lparr>m_loadState := Response\<rparr>))
          \<and> OnResponseStarted rq s = Some (Inr sF)
          \<and> list_all is_early (posted s)
          \<and> (\<forall>cs' out. run ext s (Call_OnResponseStarted rq # cs') = Some out \<longrightarrow>
                filter (\<lambda>n. \<not> is_early n) (posted (state_of out)) =
                  [DidFail (WebResponse_of_request (m_request s))]))"
proof -
  note ca = run_attached [OF assms(2,3)]
  have a: "m_loadState s \<noteq> Started \<longrightarrow> OnResponseStarted rq s = Some (Inl (AssertionFailed, s))"
    by (simp add: OnResponseStarted_def)
  have b: "m_loadState s = Started
            \<and> (case rq of None \<Rightarrow> False | Some r \<Rightarrow> is_success (req_status r)) \<longrightarrow>
            OnResponseStarted rq s =
              startReading_loop (s\<lparr>m_loadState := Response,
                effects := effects s @ [Posted (DidReceiveResponse (WebResponse_of_request rq))]\<rparr>)"
  proof
    assume h: "m_loadState s = Started
            \<and> (case rq of None \<Rightarrow> False | Some r \<Rightarrow> is_success (req_status r))"
    then have "m_loadState s = Started \<or> m_loadState s = Response \<or> m_loadState s = GotData" by simp
    note lv = live_of_consistent [OF ca [THEN conjunct1] ca [THEN conjunct2] this]
    then obtain l' where l': "m_urlLoader s = Some l'" by auto
    show "OnResponseStarted rq s =
              startReading_loop (s\<lparr>m_loadState := Response,
                effects := effects s @ [Posted (DidReceiveResponse (WebResponse_of_request rq))]\<rparr>)"
      using h l' by (simp add: OnResponseStarted_def maybeCallOnMainThread_def startReading_def)
  qed
  have c: "m_loadState s = Started
            \<and> \<not> (case rq of None \<Rightarrow> False | Some r \<Rightarrow> is_success (req_status r)) \<longrightarrow>
            OnResponseStarted rq s = Some (finish False (s\<lparr>m_loadState := Response\<rparr>))
          \<and> OnResponseStarted rq s = Some (Inr sF)
          \<and> list_all is_early (posted s)
          \<and> (\<forall>cs' out. run ext s (Call_OnResponseStarted rq # cs') = Some out \<longrightarrow>
                filter (\<lambda>n. \<not> is_early n) (posted (state_of out)) =
                  [DidFail (WebResponse_of_request (m_request s))])"
  proof
    assume h: "m_loadState s = Started
            \<and> \<not> (case rq of None \<Rightarrow> False | Some r \<Rightarrow> is_success (req_status r))"
    then have "m_loadState s = Started \<or> m_loadState s = Response \<or> m_loadState s = GotData" by simp
    note lv = live_of_consistent [OF ca [THEN conjunct1] ca [THEN conjunct2] this]
    then obtain l' where l': "m_urlLoader s = Some l'" by auto
    have c1: "OnResponseStarted rq s = Some (finish False (s\<lparr>m_loadState := Response\<rparr>))"
      using h by (simp add: OnResponseStarted_def)
    have c2: "finish False (s\<lparr>m_loadState := Response\<rparr>) = Inr sF"
      using l' by (simp add: finish_def maybeCallOnMainThread_def sF_def)
    have c3: "list_all is_early (posted s)"
      using ca h by (simp add: consistent_def)
    have fe: "filter (\<lambda>n. \<not> is_early n) (posted s) = []"
      using c3 by (simp add: list_all_iff filter_empty_conv)
    have pf: "filter (\<lambda>n. \<not> is_early n) (posted sF) = [DidFail (WebResponse_of_request (m_request s))]"
      using fe by (simp add: sF_def posted_simps)
    have c4: "\<forall>cs' out. run ext s (Call_OnResponseStarted rq # cs') = Some out \<longrightarrow>
                filter (\<lambda>n. \<not> is_early n) (posted (state_of out)) =
                  [DidFail (WebResponse_of_request (m_request s))]"
    proof (intro allI impI)
      fix cs' out assume r: "run ext s (Call_OnResponseStarted rq # cs') = Some out"
      then have r': "run ext sF cs' = Some out" using c1 c2 by simp
      have "LoadState_value Finished \<le> LoadState_value (m_loadState sF)" by (simp add: sF_def)
      note fz = run_finished [OF this r']
      then have "posted (state_of out) = posted sF" by (simp add: posted_def)
      then show "filter (\<lambda>n. \<not> is_early n) (posted (state_of out)) =
                  [DidFail (WebResponse_of_request (m_request s))]"
        using pf by simp
    qed
    show "OnResponseStarted rq s = Some (finish False (s\<lparr>m_loadState := Response\<rparr>))
          \<and> OnResponseStarted rq s = Some (Inr sF)
          \<and> list_all is_early (posted s)
          \<and> (\<forall>cs' out. run ext s (Call_OnResponseStarted rq # cs') = Some out \<longrightarrow>
                filter (\<lambda>n. \<not> is_early n) (posted (state_of out)) =
                  [DidFail (WebResponse_of_request (m_request s))])"
      using c1 c2 c3 c4 by simp
  qed
  show ?thesis using a b c by blast
qed

theorem C5_witness:
  "run example_externals (example_network ''http://a/'' (sconst (False, 0, status_pending)))
     [Call_start False] = Some (Inr (example_started (sconst (False, 0, status_pending))))
   \<and> OnResponseStarted None (example_started (sconst (False, 0, status_pending))) =
       Some (Inr ((example_started (sconst (False, 0, status_pending)))
              \<lparr>m_loadState := Finished,
               effects := [Called Net_Start,
                  Posted (DidFail (WebResponse_of_request
                     (Some (example_response \<lparr>req_reads := sconst (False, 0, status_pending)\<rparr>))))],
               m_networkBuffer := None, m_request := None, m_urlLoader := None\<rparr>))
   \<and> OnResponseStarted (Some example_response) (example_started (sconst (False, 0, status_pending))) =
       startReading_loop (example_reading (sconst (False, 0, status_pending)))
   \<and> run example_externals (example_network ''data:text/plain,hello'' (sconst (False, 0, status_failed)))
     [Call_start False] = Some (Inr example_finished)
   \<and> OnResponseStarted None example_finished = Some (Inl (AssertionFailed, example_finished))"
proof -
  note t1 = C5_response_started [OF disjI1 example_run_started, OF example_network_def]
  note t2 = C5_response_started [OF disjI1 example_run_finished, OF example_network_def]
  have s: "m_loadState (example_started (sconst (False, 0, status_pending))) = Started"
    by (simp add: fixture_defs)
  have a: "OnResponseStarted None (example_started (sconst (False, 0, status_pending))) =
       Some (Inr ((example_started (sconst (False, 0, status_pending)))
              \<lparr>m_loadState := Finished,
               effects := [Called Net_Start,
                  Posted (DidFail (WebResponse_of_request
                     (Some (example_response \<lparr>req_reads := sconst (False, 0, status_pending)\<rparr>))))],
               m_networkBuffer := None, m_request := None, m_urlLoader := None\<rparr>))"
    using t1 [of _ None, THEN conjunct2, THEN conjunct2, rule_format, THEN conjunct2, THEN conjunct1] s
    by (simp add: fixture_defs)
  have b: "OnResponseStarted (Some example_response) (example_started (sconst (False, 0, status_pending))) =
       startReading_loop (example_reading (sconst (False, 0, status_pending)))"
    using t1 [of _ "Some example_response", THEN conjunct2, THEN conjunct1, rule_format] s
    by (simp add: reading_defs)
  have f: "m_loadState example_finished \<noteq> Started" by (simp add: fixture_defs)
  have c: "OnResponseStarted None example_finished = Some (Inl (AssertionFailed, example_finished))"
    by (rule t2 [THEN conjunct1, rule_format, OF f])
  show ?thesis using example_run_started example_run_finished a b c by simp
qed

text \<open>
  Claim C6.  With a consumer attached, \<^verbatim>\<open>handleDataURL\<close> on a URL that parses sets
  \<^verbatim>\<open>Response\<close>, posts one \<^verbatim>\<open>didReceiveResponse\<close> with the URL's spec, the parsed MIME type,
  the length of the decoded data, the charset and status 200, posts one
  \<^verbatim>\<open>didReceiveDataUrl\<close> (setting \<^verbatim>\<open>GotData\<close>) exactly when the data is not empty, and
  runs \<^verbatim>\<open>finish(true)\<close>.  On a URL that does not parse it posts neither and runs
  \<^verbatim>\<open>finish(true)\<close>, which ends the request with \<^verbatim>\<open>didFinishLoading\<close>.
\<close>

theorem C6_data_url:
  assumes "m_urlLoader s = Some l"
  shows "(DataURL_Parse ext url = Some (mimeType, charset, dat) \<longrightarrow>
            handleDataURL ext url s =
              finish True (s\<lparr>m_loadState := (if dat = [] then Response else GotData),
                 effects := effects s @
                   Posted (DidReceiveResponse
                     (WebResponse_fields (spec ext url) mimeType (int (length dat)) charset 200))
                   # (if dat = [] then [] else [Posted (DidReceiveDataUrl dat)])\<rparr>)
          \<and> handleDataURL ext url s =
              Inr (s\<lparr>m_loadState := Finished,
                 effects := effects s @
                   Posted (DidReceiveResponse
                     (WebResponse_fields (spec ext url) mimeType (int (length dat)) charset 200))
                   # (if dat = [] then [] else [Posted (DidReceiveDataUrl dat)])
                   @ [Posted DidFinishLoading],
                 m_networkBuffer := None, m_request := None, m_urlLoader := None\<rparr>))
       \<and> (DataURL_Parse ext url = None \<longrightarrow>
            handleDataURL ext url s = finish True s
          \<and> (LoadState_value (m_loadState s) < LoadState_value Finished \<longrightarrow>
                handleDataURL ext url s =
                  Inr (s\<lparr>m_loadState := Finished,
                     effects := effects s @ [Posted DidFinishLoading],
                     m_networkBuffer := None, m_request := None, m_urlLoader := None\<rparr>)))"
  using assms by (simp add: handleDataURL_def maybeCallOnMainThread_def finish_def)

theorem C6_witness:
  "handleDataURL example_externals (GURL ''data:text/plain,hello'')
     (example_started (sconst (False, 0, status_pending))) =
     Inr ((example_started (sconst (False, 0, status_pending)))
        \<lparr>m_loadState := Finished,
         effects := [Called Net_Start,
            Posted (DidReceiveResponse
              (WebResponse_fields ''data:text/plain,hello'' ''text/plain'' 5 ''US-ASCII'' 200)),
            Posted (DidReceiveDataUrl ''hello''), Posted DidFinishLoading],
         m_networkBuffer := None, m_request := None, m_urlLoader := None\<rparr>)
   \<and> handleDataURL example_externals (GURL ''data:text/plain,'')
     (example_started (sconst (False, 0, status_pending))) =
     Inr ((example_started (sconst (False, 0, status_pending)))
        \<lparr>m_loadState := Finished,
         effects := [Called Net_Start,
            Posted (DidReceiveResponse
              (WebResponse_fields ''data:text/plain,'' ''text/plain'' 0 ''US-ASCII'' 200)),
            Posted DidFinishLoading],
         m_networkBuffer := None, m_request := None, m_urlLoader := None\<rparr>)
   \<and> handleDataURL example_externals (GURL ''data:;base64,%'')
     (example_started (sconst (False, 0, status_pending))) =
     Inr ((example_started (sconst (False, 0, status_pending)))
        \<lparr>m_loadState := Finished,
         effects := [Called Net_Start, Posted DidFinishLoading],
         m_networkBuffer := None, m_request := None, m_urlLoader := None\<rparr>)"
proof -
  have l: "m_urlLoader (example_started (sconst (False, 0, status_pending))) = Some 1"
    by (simp add: fixture_defs)
  have e: "effects (example_started (sconst (False, 0, status_pending))) = [Called Net_Start]"
    "LoadState_value (m_loadState (example_started (sconst (False, 0, status_pending)))) < LoadState_value Finished"
    by (simp_all add: fixture_defs)
  have p: "DataURL_Parse example_externals (GURL ''data:text/plain,hello'') = Some (''text/plain'', ''US-ASCII'', ''hello'')"
    "DataURL_Parse example_externals (GURL ''data:text/plain,'') = Some (''text/plain'', ''US-ASCII'', [])"
    "DataURL_Parse example_externals (GURL ''data:;base64,%'') = None"
    "\<And>x. spec example_externals (GURL x) = x"
    by (simp_all add: example_externals_def)
  note t = C6_data_url [OF l]
  show ?thesis
    using t [of example_externals "GURL ''data:text/plain,hello''" "''text/plain''" "''US-ASCII''" "''hello''",
              THEN conjunct1, rule_format, OF p(1), THEN conjunct2]
      t [of example_externals "GURL ''data:text/plain,''" "''text/plain''" "''US-ASCII''" "[]",
              THEN conjunct1, rule_format, OF p(2), THEN conjunct2]
      t [of example_externals "GURL ''data:;base64,%''" "[]" "[]" "[]",
              THEN conjunct2, rule_format, OF p(3), THEN conjunct2, rule_format, OF e(2)]
      e(1) p(4)
    by simp
qed

text \<open>
  Claim C7.  A stream request with a null stream handle and a consumer, started from
  \<^verbatim>\<open>Created\<close>, posts exactly one notification, a \<^verbatim>\<open>didFail\<close> whose descriptor has the
  request's URL, an empty MIME type, length 0, an empty charset and status 0, and ends
  in \<^verbatim>\<open>Finished\<close>; nothing else of the state changes.
\<close>

theorem C7_null_stream:
  assumes "m_loadState s = Created" "m_androidUrl s" "m_inputStream s = 0" "m_urlLoader s = Some l"
  shows "start ext p s = Some (Inr (s\<lparr>m_loadState := Finished,
            effects := effects s @ [Posted (DidFail (WebResponse_fields (m_url s) [] 0 [] 0))]\<rparr>))"
  using assms by (simp add: start_def handleAndroidURL_def maybeCallOnMainThread_def)

theorem C7_witness:
  "m_loadState (example_stream 0 (sconst (- 1, []))) = Created
   \<and> m_androidUrl (example_stream 0 (sconst (- 1, [])))
   \<and> m_inputStream (example_stream 0 (sconst (- 1, []))) = 0
   \<and> m_urlLoader (example_stream 0 (sconst (- 1, []))) = Some 1
   \<and> start example_externals False (example_stream 0 (sconst (- 1, []))) =
       Some (Inr example_null_stream_failed)"
proof -
  have h: "m_loadState (example_stream 0 (sconst (- 1, []))) = Created"
    "m_androidUrl (example_stream 0 (sconst (- 1, [])))"
    "m_inputStream (example_stream 0 (sconst (- 1, []))) = 0"
    "m_urlLoader (example_stream 0 (sconst (- 1, []))) = Some 1"
    by (simp_all add: fixture_defs)
  have e: "effects (example_stream 0 (sconst (- 1, []))) = []"
    "m_url (example_stream 0 (sconst (- 1, []))) = ''content://a?text/plain''"
    by (simp_all add: fixture_defs)
  show ?thesis
    using C7_null_stream [OF h, of example_externals False] h e
    by (simp add: example_null_stream_failed_def)
qed

text \<open>
  Claim C8, as amended.  Every \<^verbatim>\<open>finish\<close> that returns leaves the request \<^verbatim>\<open>Finished\<close> with
  \<^verbatim>\<open>m_request\<close>, \<^verbatim>\<open>m_networkBuffer\<close> and \<^verbatim>\<open>m_urlLoader\<close> null, and a second \<^verbatim>\<open>finish\<close> fails its
  assertion.  Whenever the calls of an execution have returned with the request in
  \<^verbatim>\<open>Finished\<close> or later, \<^verbatim>\<open>m_request\<close> and \<^verbatim>\<open>m_networkBuffer\<close> are null, and \<^verbatim>\<open>m_urlLoader\<close>
  is null unless the request is a stream request with a null stream handle (the branch
  of \<^verbatim>\<open>handleAndroidURL\<close> that sets \<^verbatim>\<open>Finished\<close> without calling \<^verbatim>\<open>finish\<close>).  Before
  \<^verbatim>\<open>Finished\<close> nothing has been released: the consumer given at construction is still
  held, so is the transport request of a network request, and every buffer allocated
  and not forwarded to the consumer is the one \<^verbatim>\<open>m_networkBuffer\<close> holds.
\<close>

theorem C8_release:
  assumes "s0 = WebRequest_new loader w st rs js \<or> s0 = WebRequest_new_stream ext0 loader w i js'"
    and "run ext s0 cs = Some (Inr s)"
  shows "(LoadState_value Finished \<le> LoadState_value (m_loadState s) \<longrightarrow>
            m_request s = None \<and> m_networkBuffer s = None
          \<and> (m_urlLoader s \<noteq> None \<longrightarrow> m_androidUrl s \<and> m_inputStream s = 0))
       \<and> (LoadState_value (m_loadState s) < LoadState_value Finished \<longrightarrow>
            (loader \<noteq> None \<longrightarrow> m_urlLoader s \<noteq> None)
          \<and> (\<not> m_androidUrl s \<longrightarrow> m_request s \<noteq> None)
          \<and> outstanding (effects s) =
                (case m_networkBuffer s of None \<Rightarrow> [] | Some b \<Rightarrow> [buf_id b]))
       \<and> (\<forall>b s1 s2. finish b s1 = Inr s2 \<longrightarrow>
            m_loadState s2 = Finished \<and> m_request s2 = None \<and> m_networkBuffer s2 = None
          \<and> m_urlLoader s2 = None
          \<and> (\<forall>b'. finish b' s2 = Inl (AssertionFailed, s2)))"
proof -
  have c0: "consistent s0" by (rule constructed_consistent [OF assms(1)])
  have a0: "loader \<noteq> None \<longrightarrow> attached s0"
    using assms(1) by (auto simp add: attached_def WebRequest_new_def WebRequest_new_stream_def)
  note st = run_settled [OF c0 assms(2)]
  then have c: "consistent s" by (simp add: settled_def)
  have a: "LoadState_value Finished \<le> LoadState_value (m_loadState s) \<longrightarrow>
            m_request s = None \<and> m_networkBuffer s = None
          \<and> (m_urlLoader s \<noteq> None \<longrightarrow> m_androidUrl s \<and> m_inputStream s = 0)"
    using c by (auto simp add: consistent_def split: if_splits)
  have b: "LoadState_value (m_loadState s) < LoadState_value Finished \<longrightarrow>
            (loader \<noteq> None \<longrightarrow> m_urlLoader s \<noteq> None)
          \<and> (\<not> m_androidUrl s \<longrightarrow> m_request s \<noteq> None)
          \<and> outstanding (effects s) =
                (case m_networkBuffer s of None \<Rightarrow> [] | Some b \<Rightarrow> [buf_id b])"
    using c st a0
    by (auto simp add: consistent_def settled_def attached_def held_def split: if_splits)
  have f: "\<forall>b s1 s2. finish b s1 = Inr s2 \<longrightarrow>
            m_loadState s2 = Finished \<and> m_request s2 = None \<and> m_networkBuffer s2 = None
          \<and> m_urlLoader s2 = None
          \<and> (\<forall>b'. finish b' s2 = Inl (AssertionFailed, s2))"
    using finish_Inr finish_twice by blast
  show ?thesis using a b f by blast
qed

text \<open>
  The claim as first stated fails: a stream request with a null stream handle reaches
  \<^verbatim>\<open>Finished\<close> with \<^verbatim>\<open>m_urlLoader\<close> still set.
\<close>

theorem C8_counterexample:
  "run example_externals (example_stream 0 (sconst (- 1, []))) [Call_start False] =
     Some (Inr example_null_stream_failed)
   \<and> m_loadState example_null_stream_failed = Finished
   \<and> m_urlLoader example_null_stream_failed = Some 1"
  using example_run_null_stream
  by (simp add: fixture_defs)

theorem C8_witness:
  "run example_externals (example_network ''data:text/plain,hello'' (sconst (False, 0, status_failed)))
     [Call_start False] = Some (Inr example_finished)
   \<and> m_request example_finished = None \<and> m_networkBuffer example_finished = None
   \<and> m_urlLoader example_finished = None
   \<and> run example_externals (example_network ''http://a/'' (sconst (False, 0, status_pending)))
     [Call_start False] = Some (Inr (example_started (sconst (False, 0, status_pending))))
   \<and> m_urlLoader (example_started (sconst (False, 0, status_pending))) \<noteq> None
   \<and> m_request (example_started (sconst (False, 0, status_pending))) \<noteq> None"
proof -
  note t1 = C8_release [OF disjI1 example_run_started, OF example_network_def]
  note t2 = C8_release [OF disjI1 example_run_finished, OF example_network_def]
  have f: "LoadState_value Finished \<le> LoadState_value (m_loadState example_finished)"
    "\<not> m_androidUrl example_finished"
    by (simp_all add: fixture_defs)
  have s: "LoadState_value (m_loadState (example_started (sconst (False, 0, status_pending)))) < LoadState_value Finished"
    "\<not> m_androidUrl (example_started (sconst (False, 0, status_pending)))"
    by (simp_all add: fixture_defs)
  show ?thesis
    using t1 [THEN conjunct2, THEN conjunct1, rule_format, OF s(1)]
      t2 [THEN conjunct1, rule_format, OF f(1)] f(2) s(2)
      example_run_started example_run_finished
    by auto
qed

text \<open>
  Claim C9.  \<^verbatim>\<open>OnReadCompleted\<close> with a successful status and \<open>bytesRead = 0\<close>, in
  \<^verbatim>\<open>Response\<close> or \<^verbatim>\<open>GotData\<close>, does not finish the load: it sets \<^verbatim>\<open>GotData\<close>, posts
  \<^verbatim>\<open>didReceiveData\<close> with the held buffer and length 0, clears the reference and enters
  the read loop, whose first step issues another \<^verbatim>\<open>Read\<close> with a fresh buffer.  On the
  synchronous path, by contrast, a read answered at once with zero bytes ends the load
  with \<^verbatim>\<open>finish(true)\<close>.
\<close>

theorem C9_async_zero_read:
  fixes s rq r l
  defines "s' \<equiv> s\<lparr>m_loadState := GotData,
              effects := effects s @ [Posted (DidReceiveData (m_networkBuffer s) 0)],
              m_networkBuffer := None\<rparr>"
  defines "b \<equiv> \<lparr>buf_id = next_buffer s, buf_size = 32768\<rparr>"
  assumes "m_loadState s = Response \<or> m_loadState s = GotData"
    "m_urlLoader s = Some l" "is_success (req_status rq)" "m_request s = Some r"
  shows "OnReadCompleted (Some rq) 0 s = startReading_loop s'
    \<and> read s' = Inr (fst (shd (req_reads r)), fst (snd (shd (req_reads r))),
          s'\<lparr>m_networkBuffer := Some b,
            next_buffer := Suc (next_buffer s),
            effects := effects s' @ [Allocated b, Called (Net_Read b 32768)],
            m_request := Some (r\<lparr>req_status := snd (snd (shd (req_reads r))),
                                 req_reads := stl (req_reads r)\<rparr>)\<rparr>)
    \<and> (m_networkBuffer s = None \<and> fst (shd (req_reads r)) \<and> fst (snd (shd (req_reads r))) = 0 \<longrightarrow>
          startReading_loop s =
            Some (Inr (s\<lparr>m_loadState := Finished,
              next_buffer := Suc (next_buffer s),
              effects := effects s @ [Allocated b, Called (Net_Read b 32768), Posted DidFinishLoading],
              m_networkBuffer := None, m_request := None, m_urlLoader := None\<rparr>)))"
proof -
  have a: "OnReadCompleted (Some rq) 0 s = startReading_loop s'"
    using assms(3,4,5)
    by (auto simp add: OnReadCompleted_def maybeCallOnMainThread_def startReading_def s'_def)
  have b1: "m_loadState s' = Response \<or> m_loadState s' = GotData" by (simp add: s'_def)
  have c: "m_networkBuffer s' = None" by (simp add: s'_def)
  have d: "m_request s' = Some r" using assms(6) by (simp add: s'_def)
  have n: "next_buffer s' = next_buffer s" by (simp add: s'_def)
  have rd: "read s' = Inr (fst (shd (req_reads r)), fst (snd (shd (req_reads r))),
          s'\<lparr>m_networkBuffer := Some b,
            next_buffer := Suc (next_buffer s),
            effects := effects s' @ [Allocated b, Called (Net_Read b 32768)],
            m_request := Some (r\<lparr>req_status := snd (snd (shd (req_reads r))),
                                 req_reads := stl (req_reads r)\<rparr>)\<rparr>)"
    using read_ok [OF b1 c d] by (simp add: n b_def)
  have e: "m_networkBuffer s = None \<and> fst (shd (req_reads r)) \<and> fst (snd (shd (req_reads r))) = 0 \<longrightarrow>
          startReading_loop s =
            Some (Inr (s\<lparr>m_loadState := Finished,
              next_buffer := Suc (next_buffer s),
              effects := effects s @ [Allocated b, Called (Net_Read b 32768), Posted DidFinishLoading],
              m_networkBuffer := None, m_request := None, m_urlLoader := None\<rparr>))"
  proof
    assume h: "m_networkBuffer s = None \<and> fst (shd (req_reads r)) \<and> fst (snd (shd (req_reads r))) = 0"
    then have nb: "m_networkBuffer s = None" by simp
    show "startReading_loop s =
            Some (Inr (s\<lparr>m_loadState := Finished,
              next_buffer := Suc (next_buffer s),
              effects := effects s @ [Allocated b, Called (Net_Read b 32768), Posted DidFinishLoading],
              m_networkBuffer := None, m_request := None, m_urlLoader := None\<rparr>))"
      using h assms(3)
      by (subst startReading_loop_step [OF assms(3) nb assms(6,4)])
         (auto simp add: finish_def maybeCallOnMainThread_def assms(4) b_def)
  qed
  show ?thesis using a rd e by simp
qed

theorem C9_witness:
  "OnReadCompleted (Some example_response) 0 example_two_reads =
     startReading_loop
       (example_two_reads
          \<lparr>m_loadState := GotData,
           effects := effects example_two_reads
             @ [Posted (DidReceiveData (Some \<lparr>buf_id = 1, buf_size = 32768\<rparr>) 0)],
           m_networkBuffer := None\<rparr>)
   \<and> startReading_loop (example_reading (sconst (True, 0, status_ok))) =
       Some (Inr ((example_reading (sconst (True, 0, status_ok)))
          \<lparr>m_loadState := Finished, next_buffer := 1,
           effects := effects (example_reading (sconst (True, 0, status_ok)))
             @ [Allocated \<lparr>buf_id = 0, buf_size = 32768\<rparr>,
                Called (Net_Read \<lparr>buf_id = 0, buf_size = 32768\<rparr> 32768),
                Posted DidFinishLoading],
           m_networkBuffer := None, m_request := None, m_urlLoader := None\<rparr>))"
proof -
  have ok: "is_success (req_status example_response)" by (simp add: fixture_defs)
  have h: "m_loadState example_two_reads = Response \<or> m_loadState example_two_reads = GotData"
    "m_urlLoader example_two_reads = Some 1"
    "m_request example_two_reads = Some (example_response \<lparr> req_status := status_pending \<rparr>)"
    by (simp_all add: fixture_defs example_two_reads_def)
  have b: "m_networkBuffer example_two_reads = Some \<lparr>buf_id = 1, buf_size = 32768\<rparr>"
    by (simp add: example_two_reads_def)
  have g: "m_loadState (example_reading (sconst (True, 0, status_ok))) = Response
       \<or> m_loadState (example_reading (sconst (True, 0, status_ok))) = GotData"
    "m_urlLoader (example_reading (sconst (True, 0, status_ok))) = Some 1"
    "m_request (example_reading (sconst (True, 0, status_ok))) =
       Some (example_response \<lparr> req_reads := sconst (True, 0, status_ok) \<rparr>)"
    by (simp_all add: reading_defs)
  have e: "m_networkBuffer (example_reading (sconst (True, 0, status_ok))) = None"
    "next_buffer (example_reading (sconst (True, 0, status_ok))) = 0"
    by (simp_all add: reading_defs)
  note t1 = C9_async_zero_read [OF h(1,2) ok h(3)]
  note t2 = C9_async_zero_read [OF g(1,2) ok g(3)]
  show ?thesis
    using t1 [THEN conjunct1] t2 [THEN conjunct2, THEN conjunct2] b e
    by simp
qed

text \<open>
  Claim C10.  In the loop of \<^verbatim>\<open>handleAndroidURL\<close>, a read of size \<open>\<ge> 0\<close> posts one
  \<^verbatim>\<open>didReceiveAndroidFileData\<close> of exactly that many bytes (an empty one for size 0) and
  the loop goes on; a negative size ends the loop, whatever its value.  A stream whose
  first negative size is its \<open>k\<close>-th answer therefore yields \<^verbatim>\<open>didReceiveResponse\<close>, the
  \<open>k\<close> chunks and \<^verbatim>\<open>didFinishLoading\<close>: end of stream and read error alike end in
  \<^verbatim>\<open>finish(true)\<close>, never in \<^verbatim>\<open>didFail\<close>.
\<close>

theorem C10_stream_loop:
  assumes "m_urlLoader s = Some l"
  shows "(0 \<le> fst (shd (stream_reads s)) \<longrightarrow>
            handleAndroidURL_loop s =
              handleAndroidURL_loop (s\<lparr>stream_reads := stl (stream_reads s),
                m_loadState := GotData,
                effects := effects s @
                  [Posted (DidReceiveAndroidFileData
                     (GetByteArrayRegion (snd (shd (stream_reads s)))
                        (nat (fst (shd (stream_reads s))))))]\<rparr>)
          \<and> int (length (GetByteArrayRegion (snd (shd (stream_reads s)))
                        (nat (fst (shd (stream_reads s)))))) = fst (shd (stream_reads s)))
       \<and> (fst (shd (stream_reads s)) < 0 \<longrightarrow>
            handleAndroidURL_loop s = Some (Inr (s\<lparr>stream_reads := stl (stream_reads s)\<rparr>)))
       \<and> (m_inputStream s \<noteq> 0 \<and> (\<forall>i<k. 0 \<le> fst (stream_reads s !! i))
            \<and> fst (stream_reads s !! k) < 0 \<longrightarrow>
            handleAndroidURL ext s =
              Some (Inr (s\<lparr>stream_reads := sdrop (Suc k) (stream_reads s),
                m_loadState := Finished,
                effects := effects s @
                  Posted (DidReceiveResponse
                    (WebResponse_fields (m_url s) (android_mimeType ext (m_url s)) 0 [] 200))
                  # map (\<lambda>x. Posted (DidReceiveAndroidFileData
                                       (GetByteArrayRegion (snd x) (nat (fst x)))))
                      (stake k (stream_reads s))
                  @ [Posted DidFinishLoading],
                m_networkBuffer := None, m_request := None, m_urlLoader := None\<rparr>)))"
proof -
  have a: "0 \<le> fst (shd (stream_reads s)) \<longrightarrow>
            handleAndroidURL_loop s =
              handleAndroidURL_loop (s\<lparr>stream_reads := stl (stream_reads s),
                m_loadState := GotData,
                effects := effects s @
                  [Posted (DidReceiveAndroidFileData
                     (GetByteArrayRegion (snd (shd (stream_reads s)))
                        (nat (fst (shd (stream_reads s))))))]\<rparr>)
          \<and> int (length (GetByteArrayRegion (snd (shd (stream_reads s)))
                        (nat (fst (shd (stream_reads s)))))) = fst (shd (stream_reads s))"
    using handleAndroidURL_loop_nonneg [OF _ assms]
    by (simp add: length_GetByteArrayRegion stream_chunk_def)
  have b: "fst (shd (stream_reads s)) < 0 \<longrightarrow>
            handleAndroidURL_loop s = Some (Inr (s\<lparr>stream_reads := stl (stream_reads s)\<rparr>))"
    using handleAndroidURL_loop_neg by simp
  have c: "m_inputStream s \<noteq> 0 \<and> (\<forall>i<k. 0 \<le> fst (stream_reads s !! i))
            \<and> fst (stream_reads s !! k) < 0 \<longrightarrow>
            handleAndroidURL ext s =
              Some (Inr (s\<lparr>stream_reads := sdrop (Suc k) (stream_reads s),
                m_loadState := Finished,
                effects := effects s @
                  Posted (DidReceiveResponse
                    (WebResponse_fields (m_url s) (android_mimeType ext (m_url s)) 0 [] 200))
                  # map (\<lambda>x. Posted (DidReceiveAndroidFileData
                                       (GetByteArrayRegion (snd x) (nat (fst x)))))
                      (stake k (stream_reads s))
                  @ [Posted DidFinishLoading],
                m_networkBuffer := None, m_request := None, m_urlLoader := None\<rparr>))"
  proof
    assume h: "m_inputStream s \<noteq> 0 \<and> (\<forall>i<k. 0 \<le> fst (stream_reads s !! i))
            \<and> fst (stream_reads s !! k) < 0"
    let ?s2 = "s\<lparr>m_loadState := Response,
                 effects := effects s @ [Posted (DidReceiveResponse
                    (WebResponse_fields (m_url s) (android_mimeType ext (m_url s)) 0 [] 200))]\<rparr>"
    have l2: "m_urlLoader ?s2 = Some l" using assms by simp
    have p2: "\<forall>i<k. 0 \<le> fst (stream_reads ?s2 !! i)" using h by simp
    have n2: "fst (stream_reads ?s2 !! k) < 0" using h by simp
    note lp = handleAndroidURL_loop_run [OF l2 p2 n2]
    have sc: "stream_chunk = (\<lambda>x. Posted (DidReceiveAndroidFileData
                                       (GetByteArrayRegion (snd x) (nat (fst x)))))"
      by (rule ext) (simp add: stream_chunk_def)
    show "handleAndroidURL ext s =
              Some (Inr (s\<lparr>stream_reads := sdrop (Suc k) (stream_reads s),
                m_loadState := Finished,
                effects := effects s @
                  Posted (DidReceiveResponse
                    (WebResponse_fields (m_url s) (android_mimeType ext (m_url s)) 0 [] 200))
                  # map (\<lambda>x. Posted (DidReceiveAndroidFileData
                                       (GetByteArrayRegion (snd x) (nat (fst x)))))
                      (stake k (stream_reads s))
                  @ [Posted DidFinishLoading],
                m_networkBuffer := None, m_request := None, m_urlLoader := None\<rparr>))"
      using h assms
      by (simp add: handleAndroidURL_def maybeCallOnMainThread_def lp finish_def sc)
  qed
  show ?thesis using a b c by blast
qed

theorem C10_witness:
  "handleAndroidURL example_externals example_streaming =
     Some (Inr (example_streaming
       \<lparr>stream_reads := sconst (- 1, []),
        m_loadState := Finished,
        effects := [Posted (DidReceiveResponse
                      (WebResponse_fields ''content://a?text/plain'' ''text/plain'' 0 [] 200)),
                    Posted (DidReceiveAndroidFileData ''abc''),
                    Posted (DidReceiveAndroidFileData []),
                    Posted DidFinishLoading],
        m_networkBuffer := None, m_request := None, m_urlLoader := None\<rparr>))
   \<and> handleAndroidURL_loop (example_stream 7 (sconst (- 1, []))) =
       Some (Inr (example_stream 7 (sconst (- 1, []))))
   \<and> handleAndroidURL_loop (example_stream 7 ((0, ''abcde'') ## sconst (- 1, []))) =
       handleAndroidURL_loop
         ((example_stream 7 (sconst (- 1, [])))
            \<lparr>m_loadState := GotData, effects := [Posted (DidReceiveAndroidFileData [])]\<rparr>)"
proof -
  have l: "m_urlLoader example_streaming = Some 1"
    "\<And>js. m_urlLoader (example_stream 7 js) = Some 1"
    by (simp_all add: fixture_defs example_streaming_def)
  have h: "m_inputStream example_streaming \<noteq> 0 \<and>
      (\<forall>i<2. 0 \<le> fst (stream_reads example_streaming !! i)) \<and>
      fst (stream_reads example_streaming !! 2) < 0"
    by (simp add: fixture_defs example_streaming_def less_Suc_eq numeral_2_eq_2)
  have e: "effects example_streaming = []" "m_url example_streaming = ''content://a?text/plain''"
    "stream_reads example_streaming = (3, ''abcde'') ## (0, ''abcde'') ## sconst (- 1, [])"
    by (simp_all add: fixture_defs example_streaming_def)
  have m: "android_mimeType example_externals ''content://a?text/plain'' = ''text/plain''"
    by (simp add: android_mimeType_def)
  have sc: "sconst (- 1 :: int, [] :: string) = (- 1, []) ## sconst (- 1, [])"
    by (rule stream.expand) simp
  have a: "handleAndroidURL example_externals example_streaming =
     Some (Inr (example_streaming
       \<lparr>stream_reads := sconst (- 1, []),
        m_loadState := Finished,
        effects := [Posted (DidReceiveResponse
                      (WebResponse_fields ''content://a?text/plain'' ''text/plain'' 0 [] 200)),
                    Posted (DidReceiveAndroidFileData ''abc''),
                    Posted (DidReceiveAndroidFileData []),
                    Posted DidFinishLoading],
        m_networkBuffer := None, m_request := None, m_urlLoader := None\<rparr>))"
    using C10_stream_loop [OF l(1), of 2 example_externals,
            THEN conjunct2, THEN conjunct2, rule_format, OF h] e m
    by (simp add: numeral_2_eq_2 GetByteArrayRegion_def)
  have b: "handleAndroidURL_loop (example_stream 7 (sconst (- 1, []))) =
       Some (Inr (example_stream 7 (sconst (- 1, []))))"
    using C10_stream_loop [OF l(2), of "sconst (- 1, [])" 0 example_externals,
            THEN conjunct2, THEN conjunct1]
    by (simp add: fixture_defs)
  have c: "handleAndroidURL_loop (example_stream 7 ((0, ''abcde'') ## sconst (- 1, []))) =
       handleAndroidURL_loop
         ((example_stream 7 (sconst (- 1, [])))
            \<lparr>m_loadState := GotData, effects := [Posted (DidReceiveAndroidFileData [])]\<rparr>)"
    using C10_stream_loop [OF l(2), of "(0, ''abcde'') ## sconst (- 1, [])" 0 example_externals,
            THEN conjunct1]
    by (simp add: fixture_defs GetByteArrayRegion_def)
  show ?thesis using a b c by simp
qed

end
